theory Spec2Isabelle
  imports Main
begin

section \<open>Strings: pair keys and the split used by the announce flow\<close>

text \<open>
  content.ts builds every pair key with the template literal
  \<^verbatim>\<open>`${a.title}::${b.title}`\<close> (handleSongChange, schedulePrefetch,
  performPrefetch).
\<close>

definition pairKey :: "string \<Rightarrow> string \<Rightarrow> string" where
  "pairKey a b = a @ ''::'' @ b"

text \<open>
  \<^verbatim>\<open>String.prototype.split(sep)\<close> for a non-empty separator: the text is scanned from
  the left, every occurrence of the separator closes a segment and the scan goes on behind
  it. \<open>acc\<close> is the segment read so far, reversed.
\<close>

function js_split_from :: "string \<Rightarrow> string \<Rightarrow> string \<Rightarrow> string list" where
  "js_split_from sep acc [] = [rev acc]"
| "js_split_from sep acc (c # cs) =
     (if sep \<noteq> [] \<and> take (length sep) (c # cs) = sep
      then rev acc # js_split_from sep [] (drop (length sep) (c # cs))
      else js_split_from sep (c # acc) cs)"
  by pat_completeness auto
termination
  by (relation "measure (\<lambda>(sep, acc, s). length s)") auto

definition js_split :: "string \<Rightarrow> string \<Rightarrow> string list" where
  "js_split sep s = js_split_from sep [] s"

text \<open>Indexing an array: out of range is \<^verbatim>\<open>undefined\<close>, here \<open>None\<close>.\<close>

definition js_index :: "'a list \<Rightarrow> nat \<Rightarrow> 'a option" where
  "js_index xs n = (if n < length xs then Some (xs ! n) else None)"

section \<open>Data model\<close>

text \<open>
  Modelled from the spec: the type declarations of \<^verbatim>\<open>../utils/types\<close>
  (CurrentSong, UpcomingSong) are not among the sources. The spec's data model gives
  UpcomingTrack as {title, artist} and CurrentTrack as {title, artist, album, isPaused}
  with optional numeric offsets that no modelled code reads. The field type is a
  parameter: the Coordinator works on strings, the Observer on whatever the host page
  holds.
\<close>

record 'v UpcomingSong =
  title :: 'v
  artist :: 'v

record 'v CurrentSong = "'v UpcomingSong" +
  album :: string
  isPaused :: bool

text \<open>The \<^verbatim>\<open>detail\<close> of a Trigger, Update or DataReturn event.\<close>

datatype 'v detail =
  Detail (detail_currentSong: "'v CurrentSong option")
         (detail_upcomingSong: "'v UpcomingSong option")

datatype event_kind =
  EVENT_TRIGGER | EVENT_UPDATE | EVENT_RESUME | EVENT_REQUEST_DATA | EVENT_RETURN_DATA

section \<open>The Coordinator (content.ts)\<close>

subsection \<open>Messages to and from the extension's background service\<close>

record announce_payload =
  currentSongTitle :: "string option"
  currentSongArtist :: string
  upcomingSongTitle :: "string option"
  upcomingSongArtist :: string

record prewarm_payload =
  oldSongTitle :: string
  oldArtist :: string
  newSongTitle :: string
  newArtist :: string
  currentTime :: string

datatype message = SONG_ABOUT_TO_END announce_payload | PREWARM_RJ prewarm_payload

datatype inbound = TTS_ENDED | OTHER_MESSAGE string

text \<open>What the Coordinator does to the outside: bus events and runtime messages.\<close>

datatype effect = DispatchEvent event_kind | SendMessage message

subsection \<open>State\<close>

text \<open>
  The browser's timer table is part of the state: \<^verbatim>\<open>setTimeout\<close> adds an entry
  (id, delay in ms, callback) and returns the id, \<^verbatim>\<open>clearTimeout\<close> removes the
  entry of an id, a timer that fires leaves the table. content.ts sets two kinds of timer.
\<close>

datatype timer_task = PrefetchTask string | SafetyResumeTask

record coord_state =
  currentSong :: "string CurrentSong option"
  upcomingSong :: "string UpcomingSong option"
  processedPairs :: "string set"
  isDebug :: bool
  isEnabled :: bool
  prefetchTimer :: "nat option"
  timers :: "(nat \<times> nat \<times> timer_task) list"
  nextTimerId :: nat
  resumeHandlers :: nat
  awaiting :: nat

text \<open>
  \<open>resumeHandlers\<close> counts the \<^verbatim>\<open>resumeHandler\<close> listeners that triggerAnnounce has
  registered on \<^verbatim>\<open>chrome.runtime.onMessage\<close> and that have not yet removed themselves;
  \<open>awaiting\<close> counts the calls of handleSongChange suspended at
  \<^verbatim>\<open>await triggerAnnounce(pairKey)\<close>. The map \<^verbatim>\<open>prefetchTimestamps\<close> is declared
  and never read or written. Logging is not modelled.
\<close>

definition initial :: coord_state where
  "initial = \<lparr> currentSong = None, upcomingSong = None, processedPairs = {},
     isDebug = False, isEnabled = True, prefetchTimer = None, timers = [],
     nextTimerId = 1, resumeHandlers = 0, awaiting = 0 \<rparr>"

definition setTimeout :: "nat \<Rightarrow> timer_task \<Rightarrow> coord_state \<Rightarrow> nat \<times> coord_state" where
  "setTimeout delay task st =
     (nextTimerId st,
      st\<lparr> timers := timers st @ [(nextTimerId st, delay, task)],
          nextTimerId := Suc (nextTimerId st) \<rparr>)"

definition clearTimeout :: "nat \<Rightarrow> coord_state \<Rightarrow> coord_state" where
  "clearTimeout tid st = st\<lparr> timers := filter (\<lambda>t. fst t \<noteq> tid) (timers st) \<rparr>"

subsection \<open>Prefetch\<close>

text \<open>
  schedulePrefetch: \<^verbatim>\<open>if (prefetchTimer) clearTimeout(prefetchTimer)\<close>, return when a
  song is missing, otherwise start the 15000 ms timer for the pair key of the moment. The
  variable keeps the id of a timer that has fired or been cleared.
\<close>

definition schedulePrefetch :: "coord_state \<Rightarrow> coord_state" where
  "schedulePrefetch st =
     (let st1 = (case prefetchTimer st of
                   Some tid \<Rightarrow> if tid \<noteq> 0 then clearTimeout tid st else st
                 | None \<Rightarrow> st)
      in case (currentSong st1, upcomingSong st1) of
           (Some c, Some u) \<Rightarrow>
             (let (tid, st2) = setTimeout 15000 (PrefetchTask (pairKey (title c) (title u))) st1
              in st2\<lparr> prefetchTimer := Some tid \<rparr>)
         | _ \<Rightarrow> st1)"

text \<open>
  performPrefetch(pairKey, cSong, uSong); \<open>now\<close> is the clock's
  \<^verbatim>\<open>toLocaleTimeString\<close> at the call.
\<close>

definition performPrefetch ::
  "string \<Rightarrow> string CurrentSong \<Rightarrow> string UpcomingSong \<Rightarrow> string \<Rightarrow> coord_state
     \<Rightarrow> coord_state \<times> effect list" where
  "performPrefetch key cSong uSong now st =
     (case (currentSong st, upcomingSong st) of
        (Some c, Some u) \<Rightarrow>
          if pairKey (title c) (title u) \<noteq> key then (st, [])
          else if key \<in> processedPairs st then (st, [])
          else (st\<lparr> processedPairs := insert key (processedPairs st) \<rparr>,
                [SendMessage (PREWARM_RJ \<lparr> oldSongTitle = title cSong, oldArtist = artist cSong,
                   newSongTitle = title uSong, newArtist = artist uSong, currentTime = now \<rparr>)])
      | _ \<Rightarrow> (st, []))"

text \<open>
  The timer's callback is \<^verbatim>\<open>performPrefetch(pairKey, currentSong!, upcomingSong!)\<close>:
  the two songs are read when the timer fires, not when it was set. When one of them is
  null, performPrefetch returns at its first check without touching its arguments.
\<close>

definition prefetchCallback :: "string \<Rightarrow> string \<Rightarrow> coord_state \<Rightarrow> coord_state \<times> effect list" where
  "prefetchCallback key now st =
     (case (currentSong st, upcomingSong st) of
        (Some c, Some u) \<Rightarrow> performPrefetch key c u now st
      | _ \<Rightarrow> (st, []))"

subsection \<open>Song change and announcement\<close>

text \<open>
  triggerAnnounce(pairKey): the promise's executor runs at once. It registers
  resumeHandler, sends SONG_ABOUT_TO_END and sets a 5000 ms timer whose callback is
  empty. \<^verbatim>\<open>currentSong!.artist\<close> raises inside the executor when currentSong is
  null: the promise is rejected after the listener was added, nothing is sent and the
  caller never continues.
\<close>

definition triggerAnnounce :: "string \<Rightarrow> coord_state \<Rightarrow> coord_state \<times> effect list" where
  "triggerAnnounce key st =
     (let st1 = st\<lparr> resumeHandlers := Suc (resumeHandlers st) \<rparr>
      in case currentSong st1 of
           None \<Rightarrow> (st1, [])
         | Some c \<Rightarrow>
             (let (tid, st2) = setTimeout 5000 SafetyResumeTask st1
              in (st2\<lparr> awaiting := Suc (awaiting st2) \<rparr>,
                  [SendMessage (SONG_ABOUT_TO_END
                     \<lparr> currentSongTitle = js_index (js_split ''::'' key) 0,
                       currentSongArtist = ''Unknown'',
                       upcomingSongTitle = js_index (js_split ''::'' key) 1,
                       upcomingSongArtist = artist c \<rparr>)])))"

text \<open>
  handleSongChange(detail), up to its suspension at the \<^verbatim>\<open>await\<close>: the call of
  schedulePrefetch behind the await runs when the promise is resolved (see
  \<open>onMessage\<close>); in the other branch it runs at once.
\<close>

definition handleSongChange :: "string detail \<Rightarrow> coord_state \<Rightarrow> coord_state \<times> effect list" where
  "handleSongChange d st =
     (if \<not> isEnabled st then (st, [DispatchEvent EVENT_RESUME])
      else
        let prevSong = currentSong st;
            st1 = st\<lparr> currentSong := detail_currentSong d,
                      upcomingSong := detail_upcomingSong d \<rparr>
        in case (prevSong, currentSong st1) of
             (Some p, Some c) \<Rightarrow> triggerAnnounce (pairKey (title p) (title c)) st1
           | _ \<Rightarrow> (schedulePrefetch st1, [DispatchEvent EVENT_RESUME]))"

subsection \<open>Listeners\<close>

text \<open>
  EVENT_UPDATE: \<^verbatim>\<open>c?.title !== currentSong?.title\<close> compares the titles, an absent
  song giving \<^verbatim>\<open>undefined\<close>.
\<close>

definition onUpdate :: "string detail \<Rightarrow> coord_state \<Rightarrow> coord_state \<times> effect list" where
  "onUpdate d st =
     (if map_option title (detail_currentSong d) \<noteq> map_option title (currentSong st)
      then handleSongChange d st
      else if map_option title (upcomingSong st) \<noteq> map_option title (detail_upcomingSong d)
      then (schedulePrefetch (st\<lparr> upcomingSong := detail_upcomingSong d \<rparr>), [])
      else (st, []))"

definition onReturnData :: "string detail \<Rightarrow> coord_state \<Rightarrow> coord_state \<times> effect list" where
  "onReturnData d st =
     (let st1 = st\<lparr> currentSong := detail_currentSong d,
                    upcomingSong := detail_upcomingSong d \<rparr>
      in if currentSong st1 \<noteq> None \<and> upcomingSong st1 \<noteq> None
         then (schedulePrefetch st1, []) else (st1, []))"

text \<open>
  A runtime message. The listener registered when the script loads runs first: on
  TTS_ENDED it publishes Resume when \<^verbatim>\<open>document.querySelector('video')?.paused\<close>
  holds (\<open>videoPaused\<close>: \<open>None\<close> when the page has no video element). Then every
  registered resumeHandler removes itself, publishes Resume and resolves its promise,
  and every suspended handleSongChange goes on to schedulePrefetch.
\<close>

definition onMessage :: "inbound \<Rightarrow> bool option \<Rightarrow> coord_state \<Rightarrow> coord_state \<times> effect list" where
  "onMessage m videoPaused st =
     (case m of
        TTS_ENDED \<Rightarrow>
          ((schedulePrefetch ^^ awaiting st) (st\<lparr> resumeHandlers := 0, awaiting := 0 \<rparr>),
           (if videoPaused = Some True then [DispatchEvent EVENT_RESUME] else [])
             @ replicate (resumeHandlers st) (DispatchEvent EVENT_RESUME))
      | OTHER_MESSAGE t \<Rightarrow> (st, []))"

text \<open>
  A timer fires: only a timer of the table can, and it leaves the table. The callback of
  the 5000 ms timer of triggerAnnounce holds comments only.
\<close>

definition onTimer :: "nat \<Rightarrow> string \<Rightarrow> coord_state \<Rightarrow> coord_state \<times> effect list" where
  "onTimer tid now st =
     (case map_of (timers st) tid of
        None \<Rightarrow> (st, [])
      | Some (delay, task) \<Rightarrow>
          (let st1 = clearTimeout tid st
           in case task of
                PrefetchTask key \<Rightarrow> prefetchCallback key now st1
              | SafetyResumeTask \<Rightarrow> (st1, [])))"

text \<open>
  \<^verbatim>\<open>chrome.storage.onChanged\<close> for the sync area: each of the two settings is
  overwritten when the change carries it. \<^verbatim>\<open>init\<close> reads both with their defaults and
  asks the injector for its data.
\<close>

definition onStorageChanged :: "bool option \<Rightarrow> bool option \<Rightarrow> coord_state \<Rightarrow> coord_state" where
  "onStorageChanged dbg enabled st =
     (let st1 = (case dbg of Some b \<Rightarrow> st\<lparr> isDebug := b \<rparr> | None \<Rightarrow> st)
      in case enabled of Some b \<Rightarrow> st1\<lparr> isEnabled := b \<rparr> | None \<Rightarrow> st1)"

definition init :: "bool option \<Rightarrow> bool option \<Rightarrow> coord_state \<Rightarrow> coord_state \<times> effect list" where
  "init dbg enabled st =
     (st\<lparr> isDebug := (case dbg of Some b \<Rightarrow> b | None \<Rightarrow> False),
          isEnabled := (case enabled of Some b \<Rightarrow> b | None \<Rightarrow> True) \<rparr>,
      [DispatchEvent EVENT_REQUEST_DATA])"

datatype coord_event =
    OnInit "bool option" "bool option"
  | OnStorageChanged "bool option" "bool option"
  | OnTrigger "string detail"
  | OnUpdate "string detail"
  | OnReturnData "string detail"
  | OnMessage inbound "bool option"
  | OnTimer nat string

fun step :: "coord_state \<Rightarrow> coord_event \<Rightarrow> coord_state \<times> effect list" where
  "step st (OnInit dbg enabled) = init dbg enabled st"
| "step st (OnStorageChanged dbg enabled) = (onStorageChanged dbg enabled st, [])"
| "step st (OnTrigger d) = handleSongChange d st"
| "step st (OnUpdate d) = onUpdate d st"
| "step st (OnReturnData d) = onReturnData d st"
| "step st (OnMessage m videoPaused) = onMessage m videoPaused st"
| "step st (OnTimer tid now) = onTimer tid now st"

fun run :: "coord_state \<Rightarrow> coord_event list \<Rightarrow> coord_state \<times> effect list" where
  "run st [] = (st, [])"
| "run st (e # es) =
     (let (st1, out1) = step st e; (st2, out2) = run st1 es in (st2, out1 @ out2))"

subsection \<open>Observations on the Coordinator's output\<close>

text \<open>
  The pair a PREWARM_RJ request stands for: the service identifies the pair by the two
  titles of the payload.
\<close>

fun prewarm_keys :: "effect list \<Rightarrow> string list" where
  "prewarm_keys [] = []"
| "prewarm_keys (SendMessage (PREWARM_RJ p) # effs) =
     pairKey (oldSongTitle p) (newSongTitle p) # prewarm_keys effs"
| "prewarm_keys (e # effs) = prewarm_keys effs"

text \<open>
  The announce request as the interface table of the spec words it: the titles and
  artists of the previous and of the new track.
\<close>

definition carries_both_tracks ::
  "string CurrentSong \<Rightarrow> string CurrentSong \<Rightarrow> announce_payload \<Rightarrow> bool" where
  "carries_both_tracks p c pl \<longleftrightarrow>
     currentSongTitle pl = Some (title p) \<and> currentSongArtist pl = artist p \<and>
     upcomingSongTitle pl = Some (title c) \<and> upcomingSongArtist pl = artist c"

text \<open>Songs for the concrete runs below.\<close>

definition song :: "string \<Rightarrow> string \<Rightarrow> string CurrentSong" where
  "song t a = \<lparr> title = t, artist = a, album = [], isPaused = False \<rparr>"

definition upcoming :: "string \<Rightarrow> string \<Rightarrow> string UpcomingSong" where
  "upcoming t a = \<lparr> title = t, artist = a \<rparr>"

text \<open>
  The pair of the moment, as schedulePrefetch and performPrefetch compute it: absent when
  a song is missing.
\<close>

definition livePair :: "coord_state \<Rightarrow> string option" where
  "livePair st = (case (currentSong st, upcomingSong st) of
                    (Some c, Some u) \<Rightarrow> Some (pairKey (title c) (title u))
                  | _ \<Rightarrow> None)"

text \<open>The prefetch timers of a timer table: id, delay and pair key of each.\<close>

fun pending_prefetch :: "(nat \<times> nat \<times> timer_task) list \<Rightarrow> (nat \<times> nat \<times> string) list" where
  "pending_prefetch [] = []"
| "pending_prefetch ((tid, delay, PrefetchTask key) # ts) = (tid, delay, key) # pending_prefetch ts"
| "pending_prefetch (t # ts) = pending_prefetch ts"

text \<open>
  The invariant of the timer table: ids are positive and below the next id, and the
  variable prefetchTimer holds the id of every prefetch timer still in the table.
\<close>

definition timers_ok :: "coord_state \<Rightarrow> bool" where
  "timers_ok st \<longleftrightarrow> 0 < nextTimerId st \<and>
     (\<forall>t \<in> set (timers st). 0 < fst t \<and> fst t < nextTimerId st) \<and>
     (\<forall>t \<in> set (pending_prefetch (timers st)). prefetchTimer st = Some (fst t))"

text \<open>The state behind the first line of schedulePrefetch.\<close>

definition cleared :: "coord_state \<Rightarrow> coord_state" where
  "cleared st = (case prefetchTimer st of
                   Some tid \<Rightarrow> if tid \<noteq> 0 then clearTimeout tid st else st
                 | None \<Rightarrow> st)"

text \<open>
  Three reachable states: the startup data A, B has arrived; then the feature was
  switched off; or then the track changed to B with C upcoming.
\<close>

definition after_AB :: coord_state where
  "after_AB = fst (run initial
     [OnReturnData (Detail (Some (song ''A'' ''X'')) (Some (upcoming ''B'' ''Y'')))])"

definition after_AB_disabled :: coord_state where
  "after_AB_disabled = fst (run initial
     [OnReturnData (Detail (Some (song ''A'' ''X'')) (Some (upcoming ''B'' ''Y''))),
      OnStorageChanged None (Some False)])"

definition after_AB_trigger :: coord_state where
  "after_AB_trigger = fst (run initial
     [OnReturnData (Detail (Some (song ''A'' ''X'')) (Some (upcoming ''B'' ''Y''))),
      OnTrigger (Detail (Some (song ''B'' ''Y'')) (Some (upcoming ''C'' ''Z'')))])"

section \<open>Values of the host page\<close>

text \<open>
  The injector reads the page's player and queue through values typed \<^verbatim>\<open>any\<close>. A
  value is a primitive, an array, a plain object (its own properties in order) or a
  function of no argument given by what a call returns. \<open>JThrow\<close> is not a value: it
  marks a place whose read raises (a property with a throwing getter, a function whose
  call throws). Numbers are the integers; the code compares one number with 2 and does
  no arithmetic.
\<close>

datatype jsval =
    JUndefined
  | JNull
  | JBool bool
  | JNum int
  | JStr string
  | JArr "jsval list"
  | JObj "(string \<times> jsval) list"
  | JFun jsval
  | JThrow

datatype exn = TypeError | Thrown

definition bindE :: "exn + 'a \<Rightarrow> ('a \<Rightarrow> exn + 'b) \<Rightarrow> exn + 'b" where
  "bindE m f = (case m of Inl e \<Rightarrow> Inl e | Inr v \<Rightarrow> f v)"

text \<open>\<^verbatim>\<open>try { body } catch (e) { handler }\<close>.\<close>

definition try_catch :: "exn + 'a \<Rightarrow> (exn \<Rightarrow> exn + 'a) \<Rightarrow> exn + 'a" where
  "try_catch body handler = (case body of Inl e \<Rightarrow> handler e | Inr v \<Rightarrow> Inr v)"

fun truthy :: "jsval \<Rightarrow> bool" where
  "truthy JUndefined = False"
| "truthy JNull = False"
| "truthy (JBool b) = b"
| "truthy (JNum n) = (n \<noteq> 0)"
| "truthy (JStr s) = (s \<noteq> [])"
| "truthy JThrow = False"
| "truthy v = True"

text \<open>Reading a place.\<close>

fun rd :: "jsval \<Rightarrow> exn + jsval" where
  "rd JThrow = Inl Thrown"
| "rd v = Inr v"

text \<open>
  \<^verbatim>\<open>v.k\<close> for a property name: a TypeError on null and undefined, the own property
  of an object, and undefined everywhere else (none of the names the injector reads is
  a property of a primitive, an array or a function).
\<close>

fun getProp :: "jsval \<Rightarrow> string \<Rightarrow> exn + jsval" where
  "getProp JUndefined k = Inl TypeError"
| "getProp JNull k = Inl TypeError"
| "getProp JThrow k = Inl Thrown"
| "getProp (JObj ps) k = (case map_of ps k of None \<Rightarrow> Inr JUndefined | Some v \<Rightarrow> rd v)"
| "getProp v k = Inr JUndefined"

text \<open>\<^verbatim>\<open>v?.k\<close>.\<close>

definition optProp :: "jsval \<Rightarrow> string \<Rightarrow> exn + jsval" where
  "optProp v k = (if v = JUndefined \<or> v = JNull then Inr JUndefined else getProp v k)"

text \<open>
  \<^verbatim>\<open>v?.[0]\<close>: the first element of an array, the first character of a string,
  undefined on null and undefined.
\<close>

fun optIndex0 :: "jsval \<Rightarrow> exn + jsval" where
  "optIndex0 (JArr (x # xs)) = rd x"
| "optIndex0 (JStr (c # cs)) = Inr (JStr [c])"
| "optIndex0 (JObj ps) = (case map_of ps ''0'' of None \<Rightarrow> Inr JUndefined | Some v \<Rightarrow> rd v)"
| "optIndex0 JThrow = Inl Thrown"
| "optIndex0 v = Inr JUndefined"

text \<open>\<^verbatim>\<open>f()\<close>: a TypeError when \<open>f\<close> is not a function.\<close>

fun callFn :: "jsval \<Rightarrow> exn + jsval" where
  "callFn (JFun r) = rd r"
| "callFn JThrow = Inl Thrown"
| "callFn v = Inl TypeError"

text \<open>\<^verbatim>\<open>a || b\<close>: \<open>b\<close> is evaluated only when \<open>a\<close> is falsy.\<close>

definition orElse :: "jsval \<Rightarrow> exn + jsval \<Rightarrow> exn + jsval" where
  "orElse a b = (if truthy a then Inr a else b)"

text \<open>
  \<^verbatim>\<open>[...v]\<close>: the elements of an array (each one read), the characters of a string,
  a TypeError on what is not iterable.
\<close>

fun spread :: "jsval \<Rightarrow> exn + jsval list" where
  "spread (JArr xs) = (if JThrow \<in> set xs then Inl Thrown else Inr xs)"
| "spread (JStr s) = Inr (map (\<lambda>c. JStr [c]) s)"
| "spread JThrow = Inl Thrown"
| "spread v = Inl TypeError"

section \<open>The Track Observer (injector)\<close>

text \<open>
  What the injector asks the document for: the queue element
  (\<^verbatim>\<open>querySelector('ytmusic-player-queue')\<close>), the player
  (\<^verbatim>\<open>getElementById('movie_player')\<close>), the text of the byline element (\<open>None\<close> when
  there is none) and the video element (\<open>None\<close> when there is none; elements are named
  by numbers).
\<close>

record page =
  queueEl :: jsval
  player :: jsval
  byline :: "string option"
  video :: "nat option"

datatype MediaMetadata =
  MediaMetadata (md_title: string) (md_artist: string) (md_album: string)

subsection \<open>getNextSongData\<close>

text \<open>\<^verbatim>\<open>queueEl?.queue?.store || queueEl?.store\<close>\<close>

definition findStore :: "jsval \<Rightarrow> exn + jsval" where
  "findStore q =
     bindE (optProp q ''queue'') (\<lambda>qq.
     bindE (optProp qq ''store'') (\<lambda>s.
     orElse s (optProp q ''store'')))"

text \<open>\<^verbatim>\<open>state?.queue || state?.player?.queue\<close>\<close>

definition findQueueState :: "jsval \<Rightarrow> exn + jsval" where
  "findQueueState state =
     bindE (optProp state ''queue'') (\<lambda>q.
     orElse q (bindE (optProp state ''player'') (\<lambda>p. optProp p ''queue'')))"

text \<open>
  \<^verbatim>\<open>item.playlistPanelVideoRenderer ||
  item.playlistPanelVideoWrapperRenderer?.primaryRenderer?.playlistPanelVideoRenderer\<close>
\<close>

definition unwrap :: "jsval \<Rightarrow> exn + jsval" where
  "unwrap item =
     bindE (getProp item ''playlistPanelVideoRenderer'') (\<lambda>r.
     orElse r
       (bindE (getProp item ''playlistPanelVideoWrapperRenderer'') (\<lambda>w.
        bindE (optProp w ''primaryRenderer'') (\<lambda>p.
        optProp p ''playlistPanelVideoRenderer''))))"

text \<open>
  The loop that looks for the current index, from index \<open>i\<close> on: \<open>None\<close> is the
  \<^verbatim>\<open>-1\<close> the variable starts with.
\<close>

fun findSelected :: "jsval list \<Rightarrow> nat \<Rightarrow> exn + nat option" where
  "findSelected [] i = Inr None"
| "findSelected (x # xs) i =
     bindE (unwrap x) (\<lambda>data.
       if truthy data
       then bindE (getProp data ''selected'') (\<lambda>s.
              if truthy s then Inr (Some i) else findSelected xs (Suc i))
       else findSelected xs (Suc i))"

text \<open>\<^verbatim>\<open>nextData.title?.runs?.[0]?.text || "Unknown Title"\<close>, and the same for the artist.\<close>

definition runsText :: "jsval \<Rightarrow> string \<Rightarrow> string \<Rightarrow> exn + jsval" where
  "runsText nextData field dflt =
     bindE (getProp nextData field) (\<lambda>t.
     bindE (optProp t ''runs'') (\<lambda>r.
     bindE (optIndex0 r) (\<lambda>x.
     bindE (optProp x ''text'') (\<lambda>txt.
     orElse txt (Inr (JStr dflt))))))"

text \<open>The part of getNextSongData behind the concatenation of the two lists.\<close>

definition nextInQueue :: "jsval list \<Rightarrow> exn + jsval UpcomingSong option" where
  "nextInQueue fullQueue =
     (if fullQueue = [] then Inr None
      else bindE (findSelected fullQueue 0) (\<lambda>currentIndex.
        case currentIndex of
          None \<Rightarrow> Inr None
        | Some i \<Rightarrow>
            if Suc i < length fullQueue
            then bindE (unwrap (fullQueue ! Suc i)) (\<lambda>nextData.
                   if truthy nextData
                   then bindE (runsText nextData ''title'' ''Unknown Title'') (\<lambda>t.
                        bindE (runsText nextData ''longBylineText'' ''Unknown Artist'') (\<lambda>a.
                        Inr (Some \<lparr> title = t, artist = a \<rparr>)))
                   else Inr None)
            else Inr None))"

text \<open>
  From the queue state on: \<^verbatim>\<open>queueState.items || []\<close> and
  \<^verbatim>\<open>queueState.automixItems || []\<close> are read, then both are spread into
  \<^verbatim>\<open>fullQueue\<close>.
\<close>

definition orEmpty :: "jsval \<Rightarrow> jsval" where
  "orEmpty v = (if truthy v then v else JArr [])"

definition fromQueueState :: "jsval \<Rightarrow> exn + jsval UpcomingSong option" where
  "fromQueueState queueState =
     (if \<not> truthy queueState then Inr None
      else bindE (getProp queueState ''items'') (\<lambda>mainItems.
           bindE (getProp queueState ''automixItems'') (\<lambda>automixItems.
           bindE (spread (orEmpty mainItems)) (\<lambda>ms.
           bindE (spread (orEmpty automixItems)) (\<lambda>as.
           nextInQueue (ms @ as))))))"

text \<open>
  getNextSongData of the unnamed injector source (part_000): the whole body stands in
  \<^verbatim>\<open>try { ... } catch (e) { return null; }\<close>.
\<close>

definition getNextSongData_body :: "page \<Rightarrow> exn + jsval UpcomingSong option" where
  "getNextSongData_body pg =
     bindE (findStore (queueEl pg)) (\<lambda>store.
       if \<not> truthy store then Inr None
       else bindE (bindE (getProp store ''getState'') callFn) (\<lambda>state.
            bindE (findQueueState state) fromQueueState))"

definition getNextSongData :: "page \<Rightarrow> exn + jsval UpcomingSong option" where
  "getNextSongData pg = try_catch (getNextSongData_body pg) (\<lambda>e. Inr None)"

text \<open>
  getNextSongData of src/injection/injector.ts: the same reads with
  \<^verbatim>\<open>store?.getState ? store.getState() : null\<close> for the state, and no
  \<^verbatim>\<open>try\<close> around them.
\<close>

definition getNextSongData_inj :: "page \<Rightarrow> exn + jsval UpcomingSong option" where
  "getNextSongData_inj pg =
     bindE (findStore (queueEl pg)) (\<lambda>store.
     bindE (bindE (optProp store ''getState'') (\<lambda>g.
              if truthy g then bindE (getProp store ''getState'') callFn else Inr JNull)) (\<lambda>state.
     bindE (findQueueState state) fromQueueState))"

subsection \<open>getPlayerStatus\<close>

text \<open>
  The byline is split at the bullet U+2022 (three bytes in UTF-8) and every part is
  trimmed. Strings are UTF-8 bytes, so the white space and line terminators that
  \<^verbatim>\<open>String.prototype.trim\<close> strips are byte sequences: tab, line feed, vertical tab,
  form feed, carriage return, space, U+00A0, U+1680, U+2000 to U+200A, U+2028, U+2029,
  U+202F, U+205F, U+3000 and U+FEFF.
\<close>

definition js_white :: "string list" where
  "js_white =
     [[CHR 0x09], [CHR 0x0A], [CHR 0x0B], [CHR 0x0C], [CHR 0x0D], [CHR 0x20],
      [CHR 0xC2, CHR 0xA0],
      [CHR 0xE1, CHR 0x9A, CHR 0x80],
      [CHR 0xE2, CHR 0x80, CHR 0x80], [CHR 0xE2, CHR 0x80, CHR 0x81],
      [CHR 0xE2, CHR 0x80, CHR 0x82], [CHR 0xE2, CHR 0x80, CHR 0x83],
      [CHR 0xE2, CHR 0x80, CHR 0x84], [CHR 0xE2, CHR 0x80, CHR 0x85],
      [CHR 0xE2, CHR 0x80, CHR 0x86], [CHR 0xE2, CHR 0x80, CHR 0x87],
      [CHR 0xE2, CHR 0x80, CHR 0x88], [CHR 0xE2, CHR 0x80, CHR 0x89],
      [CHR 0xE2, CHR 0x80, CHR 0x8A],
      [CHR 0xE2, CHR 0x80, CHR 0xA8], [CHR 0xE2, CHR 0x80, CHR 0xA9],
      [CHR 0xE2, CHR 0x80, CHR 0xAF],
      [CHR 0xE2, CHR 0x81, CHR 0x9F],
      [CHR 0xE3, CHR 0x80, CHR 0x80],
      [CHR 0xEF, CHR 0xBB, CHR 0xBF]]"

text \<open>Strips from the front, as long as one of the sequences \<open>ws\<close> stands there.\<close>

function strip_prefixes :: "string list \<Rightarrow> string \<Rightarrow> string" where
  "strip_prefixes ws s =
     (case find (\<lambda>w. w \<noteq> [] \<and> take (length w) s = w) ws of
        None \<Rightarrow> s
      | Some w \<Rightarrow> strip_prefixes ws (drop (length w) s))"
  by pat_completeness auto
termination
proof (relation "measure (\<lambda>(ws, s). length s)")
  show "wf (measure (\<lambda>(ws, s). length s))" by simp
next
  fix ws :: "string list" and s w :: string
  assume "find (\<lambda>w. w \<noteq> [] \<and> take (length w) s = w) ws = Some w"
  then have "w \<noteq> []" and t: "take (length w) s = w" by (auto simp: find_Some_iff)
  then have "s \<noteq> []" by auto
  with \<open>w \<noteq> []\<close> show "((ws, drop (length w) s), (ws, s)) \<in> measure (\<lambda>(ws, s). length s)"
    by (cases w) auto
qed

declare strip_prefixes.simps [simp del]

definition js_trim :: "string \<Rightarrow> string" where
  "js_trim s = rev (strip_prefixes (map rev js_white) (rev (strip_prefixes js_white s)))"

definition albumFromByline :: "string option \<Rightarrow> string" where
  "albumFromByline b =
     (let text = (case b of None \<Rightarrow> [] | Some t \<Rightarrow> t);
          parts = map js_trim (js_split [CHR 0xE2, CHR 0x80, CHR 0xA2] text)
      in if length parts > 1 then parts ! 1 else [])"

text \<open>
  getPlayerStatus of part_000. \<open>md\<close> is \<^verbatim>\<open>navigator.mediaSession?.metadata\<close>, which
  the trap's getter answers with the stored value.
\<close>

definition getPlayerStatus_body :: "page \<Rightarrow> MediaMetadata option \<Rightarrow> exn + jsval CurrentSong option" where
  "getPlayerStatus_body pg md =
     bindE (bindE (optProp (player pg) ''getVideoData'') (\<lambda>g.
              if truthy g then bindE (getProp (player pg) ''getVideoData'') callFn
              else Inr JNull)) (\<lambda>videoData.
     bindE (orElse (case md of None \<Rightarrow> JUndefined | Some m \<Rightarrow> JStr (md_title m))
              (bindE (optProp videoData ''title'') (\<lambda>t. orElse t (Inr (JStr []))))) (\<lambda>title'.
     bindE (orElse (case md of None \<Rightarrow> JUndefined | Some m \<Rightarrow> JStr (md_artist m))
              (bindE (optProp videoData ''author'') (\<lambda>a. orElse a (Inr (JStr []))))) (\<lambda>artist'.
     let album0 = (case md of None \<Rightarrow> [] | Some m \<Rightarrow> md_album m);
         album' = (if album0 = [] then albumFromByline (byline pg) else album0)
     in
     bindE (bindE (optProp (player pg) ''getPlayerState'') (\<lambda>g.
              if truthy g
              then bindE (bindE (getProp (player pg) ''getPlayerState'') callFn)
                     (\<lambda>s. Inr (s = JNum 2))
              else Inr True)) (\<lambda>paused.
     Inr (Some \<lparr> title = title', artist = artist', album = album', isPaused = paused \<rparr>)))))"

definition getPlayerStatus :: "page \<Rightarrow> MediaMetadata option \<Rightarrow> exn + jsval CurrentSong option" where
  "getPlayerStatus pg md = try_catch (getPlayerStatus_body pg md) (\<lambda>e. Inr None)"

section \<open>The Metadata Interception Trap (injector)\<close>

text \<open>
  The variables of the closure; \<open>metadata_cell\<close> is \<^verbatim>\<open>_metadata\<close>. The stored title
  is whatever the last snapshot held as its title.
\<close>

record trap_state =
  isLocked :: bool
  currentTitle :: jsval
  lastUpcomingTitle :: jsval
  metadata_cell :: "MediaMetadata option"

text \<open>
  What the trap does to the outside: the real play and pause of a media element, and
  events on the document with their detail and reason.
\<close>

datatype trap_effect =
    RealPlay nat
  | RealPause nat
  | Dispatch event_kind "jsval detail" string

text \<open>
  What the overridden play returns: the resolved promise of the locked branch, or the
  promise of the real play on that element.
\<close>

datatype play_result = ResolvedVoid | OriginalPlay nat

definition trap_initial :: "MediaMetadata option \<Rightarrow> trap_state" where
  "trap_initial md = \<lparr> isLocked = False, currentTitle = JStr [], lastUpcomingTitle = JStr [],
     metadata_cell = md \<rparr>"

text \<open>\<^verbatim>\<open>upcomingSong?.title || ''\<close>\<close>

definition titleOrEmpty :: "jsval UpcomingSong option \<Rightarrow> jsval" where
  "titleOrEmpty u = (case u of None \<Rightarrow> JStr [] | Some s \<Rightarrow> if truthy (title s) then title s else JStr [])"

definition broadcast ::
  "event_kind \<Rightarrow> string \<Rightarrow> page \<Rightarrow> trap_state \<Rightarrow> exn + trap_state \<times> trap_effect list" where
  "broadcast kind reason pg st =
     bindE (getPlayerStatus pg (metadata_cell st)) (\<lambda>cs.
     bindE (getNextSongData pg) (\<lambda>us.
       case cs of
         None \<Rightarrow> Inr (st, [])
       | Some c \<Rightarrow>
           Inr (st\<lparr> currentTitle := title c, lastUpcomingTitle := titleOrEmpty us \<rparr>,
                [Dispatch kind (Detail cs us) reason])))"

text \<open>The override of \<^verbatim>\<open>HTMLMediaElement.prototype.play\<close>, called on the element \<open>this\<close>.\<close>

definition play :: "nat \<Rightarrow> trap_state \<Rightarrow> play_result \<times> trap_effect list" where
  "play this st = (if isLocked st then (ResolvedVoid, []) else (OriginalPlay this, [RealPlay this]))"

text \<open>
  The getter and the setter of \<^verbatim>\<open>mediaSession.metadata\<close> (part_000). The title of
  the new value is a string, so \<^verbatim>\<open>newValue.title !== currentTitle\<close> is the inequality
  of values. The pause comes before the broadcast, whose effects follow it.
\<close>

definition metadata_get :: "trap_state \<Rightarrow> MediaMetadata option" where
  "metadata_get st = metadata_cell st"

definition metadata_set ::
  "MediaMetadata option \<Rightarrow> page \<Rightarrow> trap_state \<Rightarrow> exn + trap_state \<times> trap_effect list" where
  "metadata_set newValue pg st =
     (let st1 = st\<lparr> metadata_cell := newValue \<rparr>
      in case newValue of
           None \<Rightarrow> Inr (st1, [])
         | Some m \<Rightarrow>
             if JStr (md_title m) \<noteq> currentTitle st1
             then bindE (broadcast EVENT_TRIGGER ''SONG_CHANGED'' pg (st1\<lparr> isLocked := True \<rparr>))
                    (\<lambda>(st2, effs).
                       Inr (st2, (case video pg of Some v \<Rightarrow> [RealPause v] | None \<Rightarrow> []) @ effs))
             else Inr (st1, []))"

text \<open>
  The setter of src/injection/injector.ts: the stored title is set from the new value
  at once, the lock and the pause need a video element, and the Trigger's detail holds a
  time stamp and no track.
\<close>

definition metadata_set_inj ::
  "MediaMetadata option \<Rightarrow> page \<Rightarrow> trap_state \<Rightarrow> trap_state \<times> trap_effect list" where
  "metadata_set_inj newValue pg st =
     (let st1 = st\<lparr> metadata_cell := newValue \<rparr>
      in case newValue of
           None \<Rightarrow> (st1, [])
         | Some m \<Rightarrow>
             if JStr (md_title m) \<noteq> currentTitle st1
             then (let st2 = st1\<lparr> currentTitle := JStr (md_title m) \<rparr>
                   in case video pg of
                        None \<Rightarrow> (st2, [])
                      | Some v \<Rightarrow>
                          (st2\<lparr> isLocked := True \<rparr>,
                           [RealPause v, Dispatch EVENT_TRIGGER (Detail None None) []]))
             else (st1, []))"

text \<open>The listener of EVENT_RESUME.\<close>

definition onResume :: "page \<Rightarrow> trap_state \<Rightarrow> trap_state \<times> trap_effect list" where
  "onResume pg st =
     (st\<lparr> isLocked := False \<rparr>, case video pg of Some v \<Rightarrow> [RealPlay v] | None \<Rightarrow> [])"

text \<open>
  The listener of EVENT_REQUEST_DATA and the callback of the 2000 ms interval. In
  \<^verbatim>\<open>nextTitle !== lastUpcomingTitle\<close> two titles that are objects are compared by
  identity in the source and by value here.
\<close>

definition onRequestData :: "page \<Rightarrow> trap_state \<Rightarrow> exn + trap_state \<times> trap_effect list" where
  "onRequestData pg st = broadcast EVENT_RETURN_DATA ''REQUESTED'' pg st"

definition pollQueue :: "page \<Rightarrow> trap_state \<Rightarrow> exn + trap_state \<times> trap_effect list" where
  "pollQueue pg st =
     bindE (getNextSongData pg) (\<lambda>next.
       if titleOrEmpty next \<noteq> lastUpcomingTitle st
       then broadcast EVENT_UPDATE ''QUEUE_UPDATED'' pg st
       else Inr (st, []))"

text \<open>One playback-start call after the other, each on its element.\<close>

fun plays :: "nat list \<Rightarrow> trap_state \<Rightarrow> (play_result \<times> trap_effect list) list" where
  "plays [] st = []"
| "plays (el # els) st = play el st # plays els st"

section \<open>The trap as a machine\<close>

text \<open>
  What reaches the trap: a playback-start call on an element, an assignment to
  \<^verbatim>\<open>mediaSession.metadata\<close>, the three listeners. The page is given with each event,
  as it is at that moment.
\<close>

datatype trap_event =
    PlayCall nat
  | SetMetadata "MediaMetadata option" page
  | ResumeEvent page
  | RequestDataEvent page
  | PollTick page

fun trap_step :: "trap_state \<Rightarrow> trap_event \<Rightarrow> exn + trap_state \<times> trap_effect list" where
  "trap_step st (PlayCall el) = Inr (st, snd (play el st))"
| "trap_step st (SetMetadata nv pg) = metadata_set nv pg st"
| "trap_step st (ResumeEvent pg) = Inr (onResume pg st)"
| "trap_step st (RequestDataEvent pg) = onRequestData pg st"
| "trap_step st (PollTick pg) = pollQueue pg st"

fun trap_run :: "trap_state \<Rightarrow> trap_event list \<Rightarrow> exn + trap_state \<times> trap_effect list" where
  "trap_run st [] = Inr (st, [])"
| "trap_run st (e # es) =
     bindE (trap_step st e) (\<lambda>(st1, out1).
     bindE (trap_run st1 es) (\<lambda>(st2, out2). Inr (st2, out1 @ out2)))"

fun is_resume :: "trap_event \<Rightarrow> bool" where
  "is_resume (ResumeEvent pg) = True"
| "is_resume e = False"

fun is_real_play :: "trap_effect \<Rightarrow> bool" where
  "is_real_play (RealPlay el) = True"
| "is_real_play e = False"

text \<open>
  The trap of src/injection/injector.ts as a machine: the same play override and Resume
  listener, its own setter, and no listener for data requests and no interval, so that
  those two events pass it by.
\<close>

fun trap_step_inj :: "trap_state \<Rightarrow> trap_event \<Rightarrow> trap_state \<times> trap_effect list" where
  "trap_step_inj st (PlayCall el) = (st, snd (play el st))"
| "trap_step_inj st (SetMetadata nv pg) = metadata_set_inj nv pg st"
| "trap_step_inj st (ResumeEvent pg) = onResume pg st"
| "trap_step_inj st (RequestDataEvent pg) = (st, [])"
| "trap_step_inj st (PollTick pg) = (st, [])"

fun trap_run_inj :: "trap_state \<Rightarrow> trap_event list \<Rightarrow> trap_state \<times> trap_effect list" where
  "trap_run_inj st [] = (st, [])"
| "trap_run_inj st (e # es) =
     (let (st1, out1) = trap_step_inj st e; (st2, out2) = trap_run_inj st1 es
      in (st2, out1 @ out2))"

text \<open>
  An assignment to the metadata; and the assignments that set the lock: a value that is
  not null with a title other than the stored one (in injector.ts with a video element
  on the page).
\<close>

fun is_assignment :: "trap_event \<Rightarrow> bool" where
  "is_assignment (SetMetadata nv pg) = True"
| "is_assignment e = False"

fun relocks :: "trap_state \<Rightarrow> trap_event \<Rightarrow> bool" where
  "relocks st (SetMetadata (Some m) pg) = (JStr (md_title m) \<noteq> currentTitle st)"
| "relocks st e = False"

fun relocks_inj :: "trap_state \<Rightarrow> trap_event \<Rightarrow> bool" where
  "relocks_inj st (SetMetadata (Some m) pg) =
     (JStr (md_title m) \<noteq> currentTitle st \<and> video pg \<noteq> None)"
| "relocks_inj st e = False"

section \<open>Typed queues, for comparison\<close>

text \<open>
  The queue as the spec describes it: every entry is a renderer in one of the two
  envelopes, or something else; a renderer is flagged selected or not and may carry a
  title text and an artist text.
\<close>

record renderer =
  r_selected :: bool
  r_title :: "string option"
  r_artist :: "string option"

datatype entry = Plain renderer | InWrapper renderer | Unknown

definition embed_text :: "string \<Rightarrow> string option \<Rightarrow> (string \<times> jsval) list" where
  "embed_text field t =
     (case t of None \<Rightarrow> []
      | Some s \<Rightarrow> [(field, JObj [(''runs'', JArr [JObj [(''text'', JStr s)]])])])"

definition embed_renderer :: "renderer \<Rightarrow> jsval" where
  "embed_renderer r =
     JObj ((''selected'', JBool (r_selected r)) #
           embed_text ''title'' (r_title r) @ embed_text ''longBylineText'' (r_artist r))"

fun embed_entry :: "entry \<Rightarrow> jsval" where
  "embed_entry (Plain r) = JObj [(''playlistPanelVideoRenderer'', embed_renderer r)]"
| "embed_entry (InWrapper r) =
     JObj [(''playlistPanelVideoWrapperRenderer'',
            JObj [(''primaryRenderer'', JObj [(''playlistPanelVideoRenderer'', embed_renderer r)])])]"
| "embed_entry Unknown = JObj []"

text \<open>A page whose queue element holds a store with the two lists.\<close>

definition queue_page :: "jsval list \<Rightarrow> jsval list \<Rightarrow> page" where
  "queue_page mainItems automixItems =
     \<lparr> queueEl = JObj [(''store'', JObj [(''getState'',
          JFun (JObj [(''queue'',
            JObj [(''items'', JArr mainItems), (''automixItems'', JArr automixItems)])]))])],
       player = JNull, byline = None, video = None \<rparr>"

text \<open>The same lists behind the other two paths: the queue's store, the player's queue.\<close>

definition queue_page_nested :: "jsval list \<Rightarrow> jsval list \<Rightarrow> page" where
  "queue_page_nested mainItems automixItems =
     \<lparr> queueEl = JObj [(''queue'', JObj [(''store'', JObj [(''getState'',
          JFun (JObj [(''player'', JObj [(''queue'',
            JObj [(''items'', JArr mainItems), (''automixItems'', JArr automixItems)])])]))])])],
       player = JNull, byline = None, video = None \<rparr>"

fun renderer_of :: "entry \<Rightarrow> renderer option" where
  "renderer_of (Plain r) = Some r"
| "renderer_of (InWrapper r) = Some r"
| "renderer_of Unknown = None"

definition is_selected :: "entry \<Rightarrow> bool" where
  "is_selected e = (case renderer_of e of Some r \<Rightarrow> r_selected r | None \<Rightarrow> False)"

text \<open>The entry right behind the first selected one.\<close>

fun after_selected :: "entry list \<Rightarrow> entry option" where
  "after_selected [] = None"
| "after_selected (e # es) =
     (if is_selected e then (case es of [] \<Rightarrow> None | n # ns \<Rightarrow> Some n) else after_selected es)"

definition text_or :: "string \<Rightarrow> string option \<Rightarrow> string" where
  "text_or dflt t = (case t of None \<Rightarrow> dflt | Some s \<Rightarrow> if s = [] then dflt else s)"

text \<open>
  readUpcoming in the words of the claim: absent when no entry is selected or the
  selected one is the last, otherwise the title and artist of the next entry with the
  two defaults for missing texts.
\<close>

definition readUpcoming_claimed :: "entry list \<Rightarrow> entry list \<Rightarrow> jsval UpcomingSong option" where
  "readUpcoming_claimed mainItems automixItems =
     (case after_selected (mainItems @ automixItems) of
        None \<Rightarrow> None
      | Some n \<Rightarrow>
          Some \<lparr> title = JStr (text_or ''Unknown Title'' (Option.bind (renderer_of n) r_title)),
                 artist = JStr (text_or ''Unknown Artist'' (Option.bind (renderer_of n) r_artist)) \<rparr>)"

text \<open>The same, but absent when the next entry is in neither envelope.\<close>

definition readUpcoming_spec :: "entry list \<Rightarrow> entry list \<Rightarrow> jsval UpcomingSong option" where
  "readUpcoming_spec mainItems automixItems =
     (case after_selected (mainItems @ automixItems) of
        None \<Rightarrow> None
      | Some n \<Rightarrow>
          (case renderer_of n of
             None \<Rightarrow> None
           | Some r \<Rightarrow>
               Some \<lparr> title = JStr (text_or ''Unknown Title'' (r_title r)),
                      artist = JStr (text_or ''Unknown Artist'' (r_artist r)) \<rparr>))"

text \<open>Pages on which the reads of the host state raise.\<close>

definition page_getState_throws :: page where
  "page_getState_throws =
     \<lparr> queueEl = JObj [(''store'', JObj [(''getState'', JFun JThrow)])],
       player = JNull, byline = None, video = None \<rparr>"

definition page_null_entry :: page where
  "page_null_entry = queue_page [JNull] []"

text \<open>
  The announce flow is waiting: the feature is enabled, a current track is stored and
  a resumeHandler is registered. An event keeps it waiting when it is not the completion
  signal, does not switch the feature off and carries a current track (the injector
  publishes no event without one).
\<close>

definition announcing :: "coord_state \<Rightarrow> bool" where
  "announcing st \<longleftrightarrow> isEnabled st \<and> currentSong st \<noteq> None \<and> 0 < resumeHandlers st"

fun keeps_waiting :: "coord_event \<Rightarrow> bool" where
  "keeps_waiting (OnMessage TTS_ENDED vp) = False"
| "keeps_waiting (OnMessage (OTHER_MESSAGE t) vp) = True"
| "keeps_waiting (OnInit dbg enabled) = (enabled \<noteq> Some False)"
| "keeps_waiting (OnStorageChanged dbg enabled) = (enabled \<noteq> Some False)"
| "keeps_waiting (OnTrigger d) = (detail_currentSong d \<noteq> None)"
| "keeps_waiting (OnUpdate d) = (detail_currentSong d \<noteq> None)"
| "keeps_waiting (OnReturnData d) = (detail_currentSong d \<noteq> None)"
| "keeps_waiting (OnTimer tid now) = True"

text \<open>
  The completion signal; and the steps in which handleSongChange publishes Resume at
  once: a Trigger, or an Update with another current title, handled while the feature is
  disabled, or with no track stored, or with no current track in the event.
\<close>

fun is_completion :: "coord_event \<Rightarrow> bool" where
  "is_completion (OnMessage TTS_ENDED vp) = True"
| "is_completion e = False"

fun resumes_at_once :: "coord_state \<Rightarrow> coord_event \<Rightarrow> bool" where
  "resumes_at_once st (OnTrigger d) =
     (\<not> isEnabled st \<or> currentSong st = None \<or> detail_currentSong d = None)"
| "resumes_at_once st (OnUpdate d) =
     (map_option title (detail_currentSong d) \<noteq> map_option title (currentSong st) \<and>
      (\<not> isEnabled st \<or> currentSong st = None \<or> detail_currentSong d = None))"
| "resumes_at_once st e = False"

text \<open>Some step of the run publishes Resume at once.\<close>

fun resumes_in_run :: "coord_state \<Rightarrow> coord_event list \<Rightarrow> bool" where
  "resumes_in_run st [] = False"
| "resumes_in_run st (e # es) = (resumes_at_once st e \<or> resumes_in_run (fst (step st e)) es)"

text \<open>The pause of the setter: \<^verbatim>\<open>if (video) video.pause()\<close>.\<close>

definition pause_of :: "page \<Rightarrow> trap_effect list" where
  "pause_of pg = (case video pg of Some v \<Rightarrow> [RealPause v] | None \<Rightarrow> [])"

text \<open>The condition of a track change in the words of the claim.\<close>

definition claimed_track_change :: "trap_state \<Rightarrow> MediaMetadata \<Rightarrow> bool" where
  "claimed_track_change st m \<longleftrightarrow> JStr (md_title m) \<noteq> currentTitle st \<and> md_title m \<noteq> []"

text \<open>
  A page with a video element and nothing else, and the trap after the track A was
  announced and resumed on it.
\<close>

definition page_plain :: page where
  "page_plain = \<lparr> queueEl = JNull, player = JNull, byline = None, video = Some 0 \<rparr>"

definition trap_after_A :: trap_state where
  "trap_after_A = \<lparr> isLocked = False, currentTitle = JStr ''A'', lastUpcomingTitle = JStr [],
     metadata_cell = Some (MediaMetadata ''A'' ''X'' []) \<rparr>"

text \<open>The trap after the assignment of the track B.\<close>

definition trap_locked_B :: trap_state where
  "trap_locked_B = \<lparr> isLocked = True, currentTitle = JStr ''B'', lastUpcomingTitle = JStr [],
     metadata_cell = Some (MediaMetadata ''B'' ''Y'' []) \<rparr>"

section \<open>Properties of the Coordinator\<close>

subsection \<open>Splitting a pair key\<close>

lemma split_colon_free:
  "CHR '':'' \<notin> set a \<Longrightarrow>
   js_split_from ''::'' acc (a @ ''::'' @ rest) = (rev acc @ a) # js_split_from ''::'' [] rest"
  by (induction a arbitrary: acc) auto

lemma split_no_colon: "CHR '':'' \<notin> set b \<Longrightarrow> js_split_from ''::'' acc b = [rev acc @ b]"
  by (induction b arbitrary: acc) auto

lemma split_pairKey:
  "CHR '':'' \<notin> set a \<Longrightarrow> CHR '':'' \<notin> set b \<Longrightarrow> js_split ''::'' (pairKey a b) = [a, b]"
  using split_colon_free [of a "[]" b] split_no_colon [of b "[]"]
  by (simp add: js_split_def pairKey_def)

subsection \<open>What the timer operations leave alone\<close>

lemma clearTimeout_fields [simp]:
  "processedPairs (clearTimeout t st) = processedPairs st"
  "currentSong (clearTimeout t st) = currentSong st"
  "upcomingSong (clearTimeout t st) = upcomingSong st"
  "isEnabled (clearTimeout t st) = isEnabled st"
  "resumeHandlers (clearTimeout t st) = resumeHandlers st"
  "awaiting (clearTimeout t st) = awaiting st"
  "nextTimerId (clearTimeout t st) = nextTimerId st"
  "prefetchTimer (clearTimeout t st) = prefetchTimer st"
  by (simp_all add: clearTimeout_def)

lemma schedulePrefetch_fields [simp]:
  "processedPairs (schedulePrefetch st) = processedPairs st"
  "currentSong (schedulePrefetch st) = currentSong st"
  "upcomingSong (schedulePrefetch st) = upcomingSong st"
  "isEnabled (schedulePrefetch st) = isEnabled st"
  "resumeHandlers (schedulePrefetch st) = resumeHandlers st"
  "awaiting (schedulePrefetch st) = awaiting st"
  by (simp_all add: schedulePrefetch_def setTimeout_def Let_def split: option.splits prod.splits)

lemma schedulePrefetch_pow_fields [simp]:
  "processedPairs ((schedulePrefetch ^^ n) st) = processedPairs st"
  "currentSong ((schedulePrefetch ^^ n) st) = currentSong st"
  "upcomingSong ((schedulePrefetch ^^ n) st) = upcomingSong st"
  "isEnabled ((schedulePrefetch ^^ n) st) = isEnabled st"
  "resumeHandlers ((schedulePrefetch ^^ n) st) = resumeHandlers st"
  "awaiting ((schedulePrefetch ^^ n) st) = awaiting st"
  by (induction n) simp_all

subsection \<open>Prefetch requests and the processed pairs\<close>

lemma prewarm_keys_append [simp]:
  "prewarm_keys (xs @ ys) = prewarm_keys xs @ prewarm_keys ys"
  by (induction xs rule: prewarm_keys.induct) simp_all

lemma prewarm_keys_replicate [simp]: "prewarm_keys (replicate n (DispatchEvent k)) = []"
  by (induction n) simp_all

lemma performPrefetch_dedup:
  "performPrefetch key c u now st = (st', out) \<Longrightarrow>
   currentSong st = Some c \<Longrightarrow> upcomingSong st = Some u \<Longrightarrow>
   (prewarm_keys out = [] \<and> processedPairs st' = processedPairs st) \<or>
   (prewarm_keys out = [key] \<and> key \<notin> processedPairs st \<and>
    processedPairs st' = insert key (processedPairs st))"
  by (auto simp: performPrefetch_def split: if_splits)

lemma handleSongChange_keys:
  "handleSongChange d st = (st', out) \<Longrightarrow>
   prewarm_keys out = [] \<and> processedPairs st' = processedPairs st"
  by (auto simp: handleSongChange_def triggerAnnounce_def setTimeout_def Let_def
      split: if_splits option.splits prod.splits)

lemma step_dedup:
  "step st e = (st', out) \<Longrightarrow>
   (prewarm_keys out = [] \<and> processedPairs st' = processedPairs st) \<or>
   (\<exists>key. prewarm_keys out = [key] \<and> key \<notin> processedPairs st \<and>
    processedPairs st' = insert key (processedPairs st))"
proof (cases e)
  case (OnTimer tid now)
  assume s: "step st e = (st', out)"
  show ?thesis
  proof (cases "map_of (timers st) tid")
    case None
    with s OnTimer show ?thesis by (auto simp: onTimer_def)
  next
    case (Some dt)
    obtain delay task where dt: "dt = (delay, task)" by (cases dt)
    show ?thesis
    proof (cases task)
      case SafetyResumeTask
      with s OnTimer Some dt show ?thesis by (auto simp: onTimer_def)
    next
      case (PrefetchTask key)
      with s OnTimer Some dt
      have pc: "prefetchCallback key now (clearTimeout tid st) = (st', out)"
        by (simp add: onTimer_def)
      show ?thesis
      proof (cases "currentSong st")
        case None
        with pc show ?thesis by (auto simp: prefetchCallback_def)
      next
        case c: (Some c)
        show ?thesis
        proof (cases "upcomingSong st")
          case None
          with pc c show ?thesis by (auto simp: prefetchCallback_def)
        next
          case u: (Some u)
          with pc c have "performPrefetch key c u now (clearTimeout tid st) = (st', out)"
            by (simp add: prefetchCallback_def)
          from performPrefetch_dedup [OF this] c u show ?thesis by auto
        qed
      qed
    qed
  qed
next
  case (OnTrigger d)
  assume "step st e = (st', out)"
  with OnTrigger handleSongChange_keys [of d st st' out] show ?thesis by simp
next
  case (OnUpdate d)
  assume "step st e = (st', out)"
  with OnUpdate handleSongChange_keys [of d st st' out] show ?thesis
    by (auto simp: onUpdate_def split: if_splits)
qed (auto simp: init_def onStorageChanged_def onReturnData_def onMessage_def Let_def
      split: option.splits if_splits inbound.splits)

lemma run_dedup:
  "run st es = (st', out) \<Longrightarrow>
   distinct (prewarm_keys out) \<and> set (prewarm_keys out) \<inter> processedPairs st = {} \<and>
   processedPairs st' = processedPairs st \<union> set (prewarm_keys out)"
proof (induction es arbitrary: st st' out)
  case Nil
  then show ?case by simp
next
  case (Cons e es)
  obtain st1 out1 where s1: "step st e = (st1, out1)" by (cases "step st e")
  obtain st2 out2 where s2: "run st1 es = (st2, out2)" by (cases "run st1 es")
  from Cons.prems s1 s2 have eq: "st' = st2" "out = out1 @ out2" by simp_all
  from Cons.IH [OF s2] step_dedup [OF s1] eq show ?case by auto
qed

lemma count_list_distinct: "distinct xs \<Longrightarrow> count_list xs x \<le> 1"
  by (induction xs) (auto simp: count_list_0_iff)

text \<open>
  C4. For every pair key \<open>P\<close> and every run of the Coordinator from any state, at most
  one PREWARM_RJ request for \<open>P\<close> is sent, and none when \<open>P\<close> was processed before the
  run; the set processedPairs only grows, and the keys it gains during the run are
  exactly the keys of the requests sent.
\<close>

theorem prefetch_pair_dedup:
  "count_list (prewarm_keys (snd (run st es))) P \<le> 1 \<and>
   (P \<in> processedPairs st \<longrightarrow> count_list (prewarm_keys (snd (run st es))) P = 0) \<and>
   processedPairs st \<subseteq> processedPairs (fst (run st es)) \<and>
   processedPairs (fst (run st es)) = processedPairs st \<union> set (prewarm_keys (snd (run st es)))"
proof -
  obtain st' out where r: "run st es = (st', out)" by (cases "run st es")
  from run_dedup [OF r] have d: "distinct (prewarm_keys out)"
    and i: "set (prewarm_keys out) \<inter> processedPairs st = {}"
    and u: "processedPairs st' = processedPairs st \<union> set (prewarm_keys out)" by simp_all
  from d have "count_list (prewarm_keys out) P \<le> 1" by (rule count_list_distinct)
  moreover from i have "P \<in> processedPairs st \<longrightarrow> count_list (prewarm_keys out) P = 0"
    by (auto simp: count_list_0_iff)
  ultimately show ?thesis using r u by auto
qed

text \<open>
  The pair A::B is scheduled twice and its timer fires twice (timers 1 and 2): one
  request is sent.
\<close>

theorem prefetch_pair_dedup_witness:
  "prewarm_keys (snd (run initial
      [OnReturnData (Detail (Some (song ''A'' ''X'')) (Some (upcoming ''B'' ''Y''))),
       OnTimer 1 ''10:00'',
       OnReturnData (Detail (Some (song ''A'' ''X'')) (Some (upcoming ''B'' ''Y''))),
       OnTimer 2 ''10:01''])) = [''A::B''] \<and>
   count_list (prewarm_keys (snd (run initial
      [OnReturnData (Detail (Some (song ''A'' ''X'')) (Some (upcoming ''B'' ''Y''))),
       OnTimer 1 ''10:00'',
       OnReturnData (Detail (Some (song ''A'' ''X'')) (Some (upcoming ''B'' ''Y''))),
       OnTimer 2 ''10:01'']))) ''A::B'' \<le> 1"
  using prefetch_pair_dedup [of initial
      "[OnReturnData (Detail (Some (song ''A'' ''X'')) (Some (upcoming ''B'' ''Y''))),
       OnTimer 1 ''10:00'',
       OnReturnData (Detail (Some (song ''A'' ''X'')) (Some (upcoming ''B'' ''Y''))),
       OnTimer 2 ''10:01'']" "''A::B''"]
  by (simp add: initial_def song_def upcoming_def onReturnData_def schedulePrefetch_def
      setTimeout_def clearTimeout_def onTimer_def prefetchCallback_def performPrefetch_def
      pairKey_def)

subsection \<open>The announce request\<close>

lemma handleSongChange_announce:
  assumes "SendMessage (SONG_ABOUT_TO_END pl) \<in> set (snd (handleSongChange d st))"
  shows "\<exists>p c. currentSong st = Some p \<and> currentSong (fst (handleSongChange d st)) = Some c \<and>
     pl = \<lparr> currentSongTitle = js_index (js_split ''::'' (pairKey (title p) (title c))) 0,
            currentSongArtist = ''Unknown'',
            upcomingSongTitle = js_index (js_split ''::'' (pairKey (title p) (title c))) 1,
            upcomingSongArtist = artist c \<rparr>"
  using assms
  by (auto simp: handleSongChange_def triggerAnnounce_def setTimeout_def Let_def
      split: if_splits option.splits prod.splits)

lemma prefetch_sends_no_announce:
  "SendMessage (SONG_ABOUT_TO_END pl) \<notin> set (snd (onTimer tid now st))"
  by (auto simp: onTimer_def prefetchCallback_def performPrefetch_def Let_def
      split: option.splits prod.splits timer_task.splits if_splits)

text \<open>
  C9, as amended. Every SONG_ABOUT_TO_END request a step of the Coordinator sends was
  built from the stored previous track \<open>p\<close> and the new current track \<open>c\<close>: its two
  titles are the first two segments of the pair key split at the separator, which are
  the titles of \<open>p\<close> and \<open>c\<close> when neither holds a colon; its previous artist is the
  constant Unknown and its new artist is the artist of \<open>c\<close>.
\<close>

theorem announce_payload_contents:
  assumes "SendMessage (SONG_ABOUT_TO_END pl) \<in> set (snd (step st e))"
  shows "\<exists>p c. currentSong st = Some p \<and> currentSong (fst (step st e)) = Some c \<and>
     currentSongTitle pl = js_index (js_split ''::'' (pairKey (title p) (title c))) 0 \<and>
     upcomingSongTitle pl = js_index (js_split ''::'' (pairKey (title p) (title c))) 1 \<and>
     currentSongArtist pl = ''Unknown'' \<and>
     upcomingSongArtist pl = artist c \<and>
     (CHR '':'' \<notin> set (title p) \<and> CHR '':'' \<notin> set (title c) \<longrightarrow>
        currentSongTitle pl = Some (title p) \<and> upcomingSongTitle pl = Some (title c))"
proof -
  have "\<exists>d. SendMessage (SONG_ABOUT_TO_END pl) \<in> set (snd (handleSongChange d st)) \<and>
          step st e = handleSongChange d st"
  proof (cases e)
    case (OnTimer tid now)
    with assms prefetch_sends_no_announce [of pl tid now st] show ?thesis by simp
  next
    case (OnUpdate d)
    with assms show ?thesis by (auto simp: onUpdate_def split: if_splits)
  next
    case (OnMessage m vp)
    with assms show ?thesis by (auto simp: onMessage_def split: inbound.splits if_splits)
  qed (use assms in \<open>auto simp: init_def onReturnData_def Let_def split: if_splits\<close>)
  then obtain d where m: "SendMessage (SONG_ABOUT_TO_END pl) \<in> set (snd (handleSongChange d st))"
    and s: "step st e = handleSongChange d st" by blast
  from handleSongChange_announce [OF m] obtain p c where
    p: "currentSong st = Some p" and c: "currentSong (fst (handleSongChange d st)) = Some c" and
    pl: "pl = \<lparr> currentSongTitle = js_index (js_split ''::'' (pairKey (title p) (title c))) 0,
            currentSongArtist = ''Unknown'',
            upcomingSongTitle = js_index (js_split ''::'' (pairKey (title p) (title c))) 1,
            upcomingSongArtist = artist c \<rparr>" by blast
  have "CHR '':'' \<notin> set (title p) \<and> CHR '':'' \<notin> set (title c) \<longrightarrow>
        currentSongTitle pl = Some (title p) \<and> upcomingSongTitle pl = Some (title c)"
    by (simp add: pl split_pairKey js_index_def)
  with p c pl s show ?thesis by simp
qed

theorem announce_payload_contents_witness:
  "SendMessage (SONG_ABOUT_TO_END \<lparr> currentSongTitle = Some ''A'', currentSongArtist = ''Unknown'',
       upcomingSongTitle = Some ''B'', upcomingSongArtist = ''Y'' \<rparr>)
     \<in> set (snd (step (initial\<lparr> currentSong := Some (song ''A'' ''X'') \<rparr>)
                   (OnTrigger (Detail (Some (song ''B'' ''Y'')) None)))) \<and>
   (\<exists>p c. currentSong (initial\<lparr> currentSong := Some (song ''A'' ''X'') \<rparr>) = Some p \<and>
      detail_currentSong (Detail (Some (song ''B'' ''Y'')) None) = Some c \<and>
      CHR '':'' \<notin> set (title p) \<and> CHR '':'' \<notin> set (title c))"
  using announce_payload_contents [of
      "\<lparr> currentSongTitle = Some ''A'', currentSongArtist = ''Unknown'',
         upcomingSongTitle = Some ''B'', upcomingSongArtist = ''Y'' \<rparr>"
      "initial\<lparr> currentSong := Some (song ''A'' ''X'') \<rparr>"
      "OnTrigger (Detail (Some (song ''B'' ''Y'')) None)"]
  by (simp add: initial_def song_def handleSongChange_def triggerAnnounce_def setTimeout_def
      pairKey_def js_split_def js_index_def)

text \<open>
  The claim as stated fails: after the track A by X, the request for the change to B by
  Y names Unknown, not X, as the previous artist.
\<close>

theorem announce_payload_counterexample:
  "snd (step (initial\<lparr> currentSong := Some (song ''A'' ''X'') \<rparr>)
             (OnTrigger (Detail (Some (song ''B'' ''Y'')) None)))
     = [SendMessage (SONG_ABOUT_TO_END \<lparr> currentSongTitle = Some ''A'',
          currentSongArtist = ''Unknown'', upcomingSongTitle = Some ''B'',
          upcomingSongArtist = ''Y'' \<rparr>)] \<and>
   \<not> carries_both_tracks (song ''A'' ''X'') (song ''B'' ''Y'')
       \<lparr> currentSongTitle = Some ''A'', currentSongArtist = ''Unknown'',
         upcomingSongTitle = Some ''B'', upcomingSongArtist = ''Y'' \<rparr>"
  by (simp add: initial_def song_def handleSongChange_def triggerAnnounce_def setTimeout_def
      pairKey_def js_split_def js_index_def carries_both_tracks_def)

subsection \<open>Pair keys are not injective\<close>

text \<open>
  C10. A title that holds the separator lets two different title pairs share a key:
  the pair (a::b, c) and the pair (a, b::c), for all a, b and c, as do (A::B, C) and
  (A, B::C). And the announce flow does not get the titles back from the key: after the
  track A::B, the request for the change to C names A and B as the two titles.
\<close>

theorem pairKey_not_injective:
  "pairKey (a @ ''::'' @ b) c = pairKey a (b @ ''::'' @ c) \<and>
   (a @ ''::'' @ b, c) \<noteq> (a, b @ ''::'' @ c) \<and>
   pairKey ''A::B'' ''C'' = pairKey ''A'' ''B::C'' \<and>
   snd (handleSongChange (Detail (Some (song ''C'' ''Y'')) None)
          (initial\<lparr> currentSong := Some (song ''A::B'' ''X'') \<rparr>))
     = [SendMessage (SONG_ABOUT_TO_END \<lparr> currentSongTitle = Some ''A'',
          currentSongArtist = ''Unknown'', upcomingSongTitle = Some ''B'',
          upcomingSongArtist = ''Y'' \<rparr>)]"
  by (simp add: initial_def song_def handleSongChange_def triggerAnnounce_def setTimeout_def
      pairKey_def js_split_def js_index_def)

theorem pairKey_not_injective_witness:
  "pairKey (''Intro'' @ ''::'' @ ''Live'') ''Outro'' = pairKey ''Intro'' (''Live'' @ ''::'' @ ''Outro'') \<and>
   (''Intro'' @ ''::'' @ ''Live'', ''Outro'') \<noteq> (''Intro'', ''Live'' @ ''::'' @ ''Outro'')"
  using pairKey_not_injective [of "''Intro''" "''Live''" "''Outro''"] by simp

subsection \<open>The prefetch timer\<close>

lemma pending_prefetch_append [simp]:
  "pending_prefetch (xs @ ys) = pending_prefetch xs @ pending_prefetch ys"
  by (induction xs rule: pending_prefetch.induct) simp_all

lemma pending_prefetch_filter:
  "pending_prefetch (filter (\<lambda>t. fst t \<noteq> tid) ts) = filter (\<lambda>t. fst t \<noteq> tid) (pending_prefetch ts)"
  by (induction ts rule: pending_prefetch.induct) simp_all

lemma pending_prefetch_ids: "t \<in> set (pending_prefetch ts) \<Longrightarrow> fst t \<in> fst ` set ts"
  by (induction ts rule: pending_prefetch.induct) auto

lemma timers_ok_clear_all:
  assumes "timers_ok st" "prefetchTimer st = Some tid" "tid \<noteq> 0"
  shows "pending_prefetch (timers (clearTimeout tid st)) = []"
proof -
  from assms have "\<forall>t \<in> set (pending_prefetch (timers st)). fst t = tid"
    by (auto simp: timers_ok_def)
  then have "filter (\<lambda>t. fst t \<noteq> tid) (pending_prefetch (timers st)) = []"
    by (auto simp: filter_empty_conv)
  then show ?thesis by (simp add: clearTimeout_def pending_prefetch_filter)
qed

lemma timers_ok_none:
  assumes "timers_ok st" "prefetchTimer st = None \<or> prefetchTimer st = Some 0"
  shows "pending_prefetch (timers st) = []"
proof (rule ccontr)
  assume "pending_prefetch (timers st) \<noteq> []"
  then obtain t where t: "t \<in> set (pending_prefetch (timers st))" by (cases "pending_prefetch (timers st)") auto
  with assms have "prefetchTimer st = Some (fst t)" by (auto simp: timers_ok_def)
  moreover from pending_prefetch_ids [OF t] assms(1) have "0 < fst t" by (auto simp: timers_ok_def)
  ultimately show False using assms(2) by auto
qed

lemma timers_ok_clearTimeout: "timers_ok st \<Longrightarrow> timers_ok (clearTimeout tid st)"
  by (auto simp: timers_ok_def clearTimeout_def pending_prefetch_filter)

lemma cleared_pending: "timers_ok st \<Longrightarrow> pending_prefetch (timers (cleared st)) = []"
  by (auto simp: cleared_def timers_ok_clear_all timers_ok_none split: option.splits)

lemma cleared_ok: "timers_ok st \<Longrightarrow> timers_ok (cleared st)"
  by (auto simp: cleared_def timers_ok_clearTimeout split: option.splits)

lemma cleared_fields [simp]:
  "currentSong (cleared st) = currentSong st" "upcomingSong (cleared st) = upcomingSong st"
  "nextTimerId (cleared st) = nextTimerId st"
  by (auto simp: cleared_def split: option.splits)

lemma schedulePrefetch_cleared:
  "schedulePrefetch st =
     (case (currentSong st, upcomingSong st) of
        (Some c, Some u) \<Rightarrow>
          (cleared st)\<lparr> timers := timers (cleared st) @
               [(nextTimerId st, 15000, PrefetchTask (pairKey (title c) (title u)))],
             nextTimerId := Suc (nextTimerId st), prefetchTimer := Some (nextTimerId st) \<rparr>
      | _ \<Rightarrow> cleared st)"
  by (auto simp: schedulePrefetch_def cleared_def setTimeout_def Let_def split: option.splits)

lemma schedulePrefetch_pending:
  assumes "timers_ok st"
  shows "pending_prefetch (timers (schedulePrefetch st)) =
     (case (currentSong st, upcomingSong st) of
        (Some c, Some u) \<Rightarrow> [(nextTimerId st, 15000, pairKey (title c) (title u))]
      | _ \<Rightarrow> [])"
  using cleared_pending [OF assms]
  by (simp add: schedulePrefetch_cleared split: option.splits)

lemma timers_ok_schedulePrefetch:
  assumes "timers_ok st"
  shows "timers_ok (schedulePrefetch st)"
proof -
  from cleared_ok [OF assms] cleared_pending [OF assms]
  show ?thesis
    by (auto simp: schedulePrefetch_cleared timers_ok_def split: option.splits)
qed

lemma timers_ok_pow: "timers_ok st \<Longrightarrow> timers_ok ((schedulePrefetch ^^ n) st)"
  by (induction n) (simp_all add: timers_ok_schedulePrefetch)

lemma timers_ok_irrelevant [simp]:
  "timers_ok (st\<lparr> currentSong := c \<rparr>) = timers_ok st"
  "timers_ok (st\<lparr> upcomingSong := u \<rparr>) = timers_ok st"
  "timers_ok (st\<lparr> processedPairs := pp \<rparr>) = timers_ok st"
  "timers_ok (st\<lparr> isDebug := b \<rparr>) = timers_ok st"
  "timers_ok (st\<lparr> isEnabled := b \<rparr>) = timers_ok st"
  "timers_ok (st\<lparr> resumeHandlers := n \<rparr>) = timers_ok st"
  "timers_ok (st\<lparr> awaiting := n \<rparr>) = timers_ok st"
  by (simp_all add: timers_ok_def)

lemma timers_ok_safety:
  "timers_ok st \<Longrightarrow> timers_ok (snd (setTimeout 5000 SafetyResumeTask st))"
  by (auto simp: timers_ok_def setTimeout_def)

lemma timers_ok_handleSongChange: "timers_ok st \<Longrightarrow> timers_ok (fst (handleSongChange d st))"
  using timers_ok_safety [of "st\<lparr> currentSong := detail_currentSong d,
                      upcomingSong := detail_upcomingSong d, resumeHandlers := Suc (resumeHandlers st) \<rparr>"]
  by (auto simp: handleSongChange_def triggerAnnounce_def Let_def timers_ok_schedulePrefetch
      split: option.splits prod.splits)

lemma timers_ok_step: "timers_ok st \<Longrightarrow> timers_ok (fst (step st e))"
proof (cases e)
  case (OnTimer tid now)
  assume "timers_ok st"
  then have "timers_ok (clearTimeout tid st)" by (rule timers_ok_clearTimeout)
  then show ?thesis using OnTimer \<open>timers_ok st\<close>
    by (auto simp: onTimer_def prefetchCallback_def performPrefetch_def Let_def
        split: option.splits timer_task.splits)
next
  case (OnMessage m vp)
  assume "timers_ok st"
  with OnMessage show ?thesis
    by (auto simp: onMessage_def timers_ok_pow split: inbound.splits)
qed (auto simp: init_def onStorageChanged_def onUpdate_def onReturnData_def Let_def
      timers_ok_handleSongChange timers_ok_schedulePrefetch split: option.splits)

lemma timers_ok_run: "timers_ok st \<Longrightarrow> timers_ok (fst (run st es))"
proof (induction es arbitrary: st)
  case Nil
  then show ?case by simp
next
  case (Cons e es)
  from Cons.IH [OF timers_ok_step [OF Cons.prems, of e]]
  show ?case by (simp add: split_def Let_def)
qed

lemma timers_ok_initial: "timers_ok initial"
  by (simp add: timers_ok_def initial_def)


lemma map_of_cleared: "map_of (filter (\<lambda>t. fst t \<noteq> tid) ts) tid = None"
  by (induction ts) auto

lemma pow_pending:
  assumes "timers_ok st"
  shows "map snd (pending_prefetch (timers ((schedulePrefetch ^^ Suc n) st))) =
     (case (currentSong st, upcomingSong st) of
        (Some c, Some u) \<Rightarrow> [(15000, pairKey (title c) (title u))]
      | _ \<Rightarrow> [])"
  using schedulePrefetch_pending [OF timers_ok_pow [OF assms, of n]]
  by (simp split: option.splits)

lemma superseded_timer_dead:
  assumes ok: "timers_ok st" and t: "t \<in> set (pending_prefetch (timers st))"
  shows "onTimer (fst t) now (schedulePrefetch st) = (schedulePrefetch st, [])"
proof -
  from ok t have pt: "prefetchTimer st = Some (fst t)" by (auto simp: timers_ok_def)
  from pending_prefetch_ids [OF t] ok have pos: "0 < fst t" and lt: "fst t < nextTimerId st"
    by (auto simp: timers_ok_def)
  from pt pos have cl: "cleared st = clearTimeout (fst t) st" by (simp add: cleared_def)
  have "map_of (timers (cleared st)) (fst t) = None"
    by (simp add: cl clearTimeout_def map_of_cleared)
  with lt have "map_of (timers (schedulePrefetch st)) (fst t) = None"
    by (auto simp: schedulePrefetch_cleared map_add_def split: option.splits)
  then show ?thesis by (simp add: onTimer_def)
qed

lemma stale_prefetch_abandoned:
  assumes "map_of (timers st) tid = Some (delay, PrefetchTask key)"
    and "livePair st \<noteq> Some key"
  shows "onTimer tid now st = (clearTimeout tid st, [])"
  using assms
  by (auto simp: livePair_def onTimer_def prefetchCallback_def performPrefetch_def Let_def split: option.splits)

lemma valid_prefetch_sent:
  assumes "map_of (timers st) tid = Some (delay, PrefetchTask key)"
    and "currentSong st = Some c" "upcomingSong st = Some u"
    and "pairKey (title c) (title u) = key" "key \<notin> processedPairs st"
  shows "onTimer tid now st =
     ((clearTimeout tid st)\<lparr> processedPairs := insert key (processedPairs st) \<rparr>,
      [SendMessage (PREWARM_RJ \<lparr> oldSongTitle = title c, oldArtist = artist c,
         newSongTitle = title u, newArtist = artist u, currentTime = now \<rparr>)])"
  using assms
  by (auto simp: onTimer_def prefetchCallback_def performPrefetch_def Let_def split: option.splits)

text \<open>
  C5. Every reachable state satisfies the timer invariant. In a state that satisfies it,
  schedulePrefetch leaves exactly one prefetch timer, the new one, with a delay of
  15000 ms and the pair key of the moment (none when a song is missing), and every
  prefetch timer that was pending before is gone: its firing does nothing. When a
  prefetch timer fires and the live pair is not the scheduled key (or a song is
  missing), the timer leaves the table and nothing else happens.
\<close>

theorem timer_supersession:
  "timers_ok (fst (run initial es)) \<and>
   (timers_ok st \<longrightarrow>
      pending_prefetch (timers (schedulePrefetch st)) =
        (case (currentSong st, upcomingSong st) of
           (Some c, Some u) \<Rightarrow> [(nextTimerId st, 15000, pairKey (title c) (title u))]
         | _ \<Rightarrow> []) \<and>
      (\<forall>t \<in> set (pending_prefetch (timers st)).
         step (schedulePrefetch st) (OnTimer (fst t) now) = (schedulePrefetch st, []))) \<and>
   (map_of (timers st) tid = Some (delay, PrefetchTask key) \<and> livePair st \<noteq> Some key
    \<longrightarrow> step st (OnTimer tid now) = (clearTimeout tid st, []))"
  using timers_ok_run [OF timers_ok_initial, of es] schedulePrefetch_pending [of st]
    superseded_timer_dead [of st _ now] stale_prefetch_abandoned [of st tid delay key now]
  by auto


lemma after_AB_eq:
  "after_AB = \<lparr> currentSong = Some (song ''A'' ''X''), upcomingSong = Some (upcoming ''B'' ''Y''),
     processedPairs = {}, isDebug = False, isEnabled = True, prefetchTimer = Some 1,
     timers = [(1, 15000, PrefetchTask ''A::B'')], nextTimerId = 2,
     resumeHandlers = 0, awaiting = 0 \<rparr>"
  by (simp add: after_AB_def initial_def onReturnData_def schedulePrefetch_def setTimeout_def
      pairKey_def song_def upcoming_def)

lemma after_AB_trigger_eq:
  "after_AB_trigger = \<lparr> currentSong = Some (song ''B'' ''Y''), upcomingSong = Some (upcoming ''C'' ''Z''),
     processedPairs = {}, isDebug = False, isEnabled = True, prefetchTimer = Some 1,
     timers = [(1, 15000, PrefetchTask ''A::B''), (2, 5000, SafetyResumeTask)], nextTimerId = 3,
     resumeHandlers = 1, awaiting = 1 \<rparr>"
  by (simp add: after_AB_trigger_def initial_def onReturnData_def schedulePrefetch_def setTimeout_def
      pairKey_def song_def upcoming_def handleSongChange_def triggerAnnounce_def)

text \<open>
  With A, B scheduled (timer 1) the upcoming track becomes C: rescheduling leaves timer 2
  for A::C alone and timer 1 cannot fire. And with timer 1 still pending after the change
  to B, C, its firing finds the live pair B::C and abandons.
\<close>

theorem timer_supersession_witness:
  "timers_ok (after_AB\<lparr> upcomingSong := Some (upcoming ''C'' ''Z'') \<rparr>) \<and>
   pending_prefetch (timers (after_AB\<lparr> upcomingSong := Some (upcoming ''C'' ''Z'') \<rparr>))
     = [(1, 15000, ''A::B'')] \<and>
   pending_prefetch (timers (schedulePrefetch (after_AB\<lparr> upcomingSong := Some (upcoming ''C'' ''Z'') \<rparr>)))
     = [(2, 15000, ''A::C'')] \<and>
   step (schedulePrefetch (after_AB\<lparr> upcomingSong := Some (upcoming ''C'' ''Z'') \<rparr>)) (OnTimer 1 ''10:00'')
     = (schedulePrefetch (after_AB\<lparr> upcomingSong := Some (upcoming ''C'' ''Z'') \<rparr>), []) \<and>
   map_of (timers after_AB_trigger) 1 = Some (15000, PrefetchTask ''A::B'') \<and>
   livePair after_AB_trigger = Some ''B::C'' \<and>
   step after_AB_trigger (OnTimer 1 ''10:00'') = (clearTimeout 1 after_AB_trigger, [])"
proof -
  have ok: "timers_ok (after_AB\<lparr> upcomingSong := Some (upcoming ''C'' ''Z'') \<rparr>)"
    by (simp add: after_AB_eq timers_ok_def)
  have p: "pending_prefetch (timers (after_AB\<lparr> upcomingSong := Some (upcoming ''C'' ''Z'') \<rparr>))
     = [(1, 15000, ''A::B'')]"
    by (simp add: after_AB_eq)
  have m: "map_of (timers after_AB_trigger) 1 = Some (15000, PrefetchTask ''A::B'')"
    by (simp add: after_AB_trigger_eq)
  have l: "livePair after_AB_trigger = Some ''B::C''"
    by (simp add: after_AB_trigger_eq livePair_def pairKey_def song_def upcoming_def)
  from timer_supersession [of "[]" "after_AB\<lparr> upcomingSong := Some (upcoming ''C'' ''Z'') \<rparr>"
      "''10:00''" 1 15000 "''A::B''"] ok p
  have a: "pending_prefetch (timers (schedulePrefetch (after_AB\<lparr> upcomingSong := Some (upcoming ''C'' ''Z'') \<rparr>)))
     = [(2, 15000, ''A::C'')]"
    and b: "step (schedulePrefetch (after_AB\<lparr> upcomingSong := Some (upcoming ''C'' ''Z'') \<rparr>)) (OnTimer 1 ''10:00'')
     = (schedulePrefetch (after_AB\<lparr> upcomingSong := Some (upcoming ''C'' ''Z'') \<rparr>), [])"
    by (simp_all add: after_AB_eq pairKey_def song_def upcoming_def)
  from timer_supersession [of "[]" after_AB_trigger "''10:00''" 1 15000 "''A::B''"] m l
  have c: "step after_AB_trigger (OnTimer 1 ''10:00'') = (clearTimeout 1 after_AB_trigger, [])"
    by simp
  from ok p a b m l c show ?thesis by simp
qed

subsection \<open>Trigger handling\<close>

lemma trigger_announce:
  assumes "isEnabled st" "currentSong st = Some p" "detail_currentSong d = Some c"
  shows "handleSongChange d st =
     (st\<lparr> currentSong := Some c, upcomingSong := detail_upcomingSong d,
          resumeHandlers := Suc (resumeHandlers st),
          timers := timers st @ [(nextTimerId st, 5000, SafetyResumeTask)],
          nextTimerId := Suc (nextTimerId st), awaiting := Suc (awaiting st) \<rparr>,
      [SendMessage (SONG_ABOUT_TO_END
         \<lparr> currentSongTitle = js_index (js_split ''::'' (pairKey (title p) (title c))) 0,
           currentSongArtist = ''Unknown'',
           upcomingSongTitle = js_index (js_split ''::'' (pairKey (title p) (title c))) 1,
           upcomingSongArtist = artist c \<rparr>)])"
  using assms by (simp add: handleSongChange_def triggerAnnounce_def setTimeout_def)

lemma trigger_first:
  assumes "isEnabled st" "currentSong st = None"
  shows "handleSongChange d st =
     (schedulePrefetch (st\<lparr> currentSong := detail_currentSong d,
                            upcomingSong := detail_upcomingSong d \<rparr>),
      [DispatchEvent EVENT_RESUME])"
  using assms by (simp add: handleSongChange_def)

lemma handleSongChange_counts:
  "awaiting st \<le> awaiting (fst (handleSongChange d st)) \<and>
   resumeHandlers st \<le> resumeHandlers (fst (handleSongChange d st))"
  by (auto simp: handleSongChange_def triggerAnnounce_def setTimeout_def Let_def
      split: option.splits)

lemma step_counts:
  "\<not> is_completion e \<Longrightarrow>
   awaiting st \<le> awaiting (fst (step st e)) \<and> resumeHandlers st \<le> resumeHandlers (fst (step st e))"
proof (cases e)
  case (OnMessage m vp)
  assume "\<not> is_completion e"
  with OnMessage show ?thesis by (cases m) (simp_all add: onMessage_def)
next
  case (OnTimer tid now)
  then show ?thesis
    by (auto simp: onTimer_def prefetchCallback_def performPrefetch_def Let_def
        split: option.splits timer_task.splits if_splits)
next
  case (OnUpdate d)
  with handleSongChange_counts [of st d] show ?thesis by (simp add: onUpdate_def)
next
  case (OnTrigger d)
  with handleSongChange_counts [of st d] show ?thesis by simp
qed (auto simp: init_def onReturnData_def onStorageChanged_def Let_def split: option.splits)

lemma run_counts:
  "\<forall>e \<in> set es. \<not> is_completion e \<Longrightarrow>
   awaiting st \<le> awaiting (fst (run st es)) \<and> resumeHandlers st \<le> resumeHandlers (fst (run st es))"
proof (induction es arbitrary: st)
  case Nil
  then show ?case by simp
next
  case (Cons e es)
  from Cons.prems step_counts [of e st]
  have 1: "awaiting st \<le> awaiting (fst (step st e))"
    "resumeHandlers st \<le> resumeHandlers (fst (step st e))" by simp_all
  from Cons.IH [of "fst (step st e)"] Cons.prems
  have 2: "awaiting (fst (step st e)) \<le> awaiting (fst (run (fst (step st e)) es))"
    "resumeHandlers (fst (step st e)) \<le> resumeHandlers (fst (run (fst (step st e)) es))"
    by simp_all
  from 1 2 show ?case by (simp add: split_def Let_def)
qed

lemma completion_schedules:
  assumes ok: "timers_ok st" and aw: "0 < awaiting st"
  shows "map snd (pending_prefetch (timers (fst (onMessage TTS_ENDED vp st)))) =
     (case livePair st of Some k \<Rightarrow> [(15000, k)] | None \<Rightarrow> [])"
proof -
  from aw obtain n where n: "awaiting st = Suc n" by (cases "awaiting st") simp_all
  from ok have ok': "timers_ok (st\<lparr> resumeHandlers := 0, awaiting := 0 \<rparr>)" by simp
  from pow_pending [OF ok', of n] n show ?thesis
    by (simp add: onMessage_def livePair_def split: option.splits del: funpow.simps)
qed

lemma completion_resumes:
  "0 < resumeHandlers st \<Longrightarrow> DispatchEvent EVENT_RESUME \<in> set (snd (onMessage TTS_ENDED vp st))"
  by (cases "resumeHandlers st") (simp_all add: onMessage_def)

text \<open>
  C2, as amended. While the feature is disabled a Trigger only publishes Resume. While
  it is enabled: with a previous track \<open>p\<close> stored and a current track \<open>c\<close> in the
  event, the only output is the announce request built from the key of \<open>p\<close> and \<open>c\<close>,
  the Trigger itself schedules no prefetch and leaves the pair of \<open>c\<close> and the event's
  upcoming track as the live pair; whatever events follow short of the completion
  signal, the completion signal then makes the registered handlers publish Resume and
  leaves as the only prefetch timer the 15000 ms timer of the pair that is live at that
  moment (none when a song is missing). With no previous track stored, or no current
  track in the event, the output is Resume alone and the prefetch timer of the event's
  pair is set at once.
\<close>

theorem trigger_handling:
  "(\<not> isEnabled st \<longrightarrow> step st (OnTrigger d) = (st, [DispatchEvent EVENT_RESUME])) \<and>
   (isEnabled st \<and> timers_ok st \<and> currentSong st = Some p \<and> detail_currentSong d = Some c \<longrightarrow>
      snd (step st (OnTrigger d)) =
        [SendMessage (SONG_ABOUT_TO_END
           \<lparr> currentSongTitle = js_index (js_split ''::'' (pairKey (title p) (title c))) 0,
             currentSongArtist = ''Unknown'',
             upcomingSongTitle = js_index (js_split ''::'' (pairKey (title p) (title c))) 1,
             upcomingSongArtist = artist c \<rparr>)] \<and>
      pending_prefetch (timers (fst (step st (OnTrigger d)))) = pending_prefetch (timers st) \<and>
      livePair (fst (step st (OnTrigger d))) =
        (case detail_upcomingSong d of
           Some u \<Rightarrow> Some (pairKey (title c) (title u))
         | None \<Rightarrow> None) \<and>
      ((\<forall>e \<in> set es. \<not> is_completion e) \<longrightarrow>
         DispatchEvent EVENT_RESUME
           \<in> set (snd (step (fst (run (fst (step st (OnTrigger d))) es)) (OnMessage TTS_ENDED vp))) \<and>
         map snd (pending_prefetch (timers
             (fst (step (fst (run (fst (step st (OnTrigger d))) es)) (OnMessage TTS_ENDED vp))))) =
           (case livePair (fst (run (fst (step st (OnTrigger d))) es)) of
              Some k \<Rightarrow> [(15000, k)]
            | None \<Rightarrow> []))) \<and>
   (isEnabled st \<and> timers_ok st \<and> (currentSong st = None \<or> detail_currentSong d = None) \<longrightarrow>
      snd (step st (OnTrigger d)) = [DispatchEvent EVENT_RESUME] \<and>
      pending_prefetch (timers (fst (step st (OnTrigger d)))) =
        (case (detail_currentSong d, detail_upcomingSong d) of
           (Some c', Some u) \<Rightarrow> [(nextTimerId st, 15000, pairKey (title c') (title u))]
         | _ \<Rightarrow> []))"
proof (intro conjI impI)
  assume "\<not> isEnabled st"
  then show "step st (OnTrigger d) = (st, [DispatchEvent EVENT_RESUME])"
    by (simp add: handleSongChange_def)
next
  assume a: "isEnabled st \<and> timers_ok st \<and> currentSong st = Some p \<and> detail_currentSong d = Some c"
  then have h: "handleSongChange d st =
     (st\<lparr> currentSong := Some c, upcomingSong := detail_upcomingSong d,
          resumeHandlers := Suc (resumeHandlers st),
          timers := timers st @ [(nextTimerId st, 5000, SafetyResumeTask)],
          nextTimerId := Suc (nextTimerId st), awaiting := Suc (awaiting st) \<rparr>,
      [SendMessage (SONG_ABOUT_TO_END
         \<lparr> currentSongTitle = js_index (js_split ''::'' (pairKey (title p) (title c))) 0,
           currentSongArtist = ''Unknown'',
           upcomingSongTitle = js_index (js_split ''::'' (pairKey (title p) (title c))) 1,
           upcomingSongArtist = artist c \<rparr>)])"
    by (simp add: trigger_announce)
  show "snd (step st (OnTrigger d)) =
        [SendMessage (SONG_ABOUT_TO_END
           \<lparr> currentSongTitle = js_index (js_split ''::'' (pairKey (title p) (title c))) 0,
             currentSongArtist = ''Unknown'',
             upcomingSongTitle = js_index (js_split ''::'' (pairKey (title p) (title c))) 1,
             upcomingSongArtist = artist c \<rparr>)]"
    by (simp add: h)
  show "pending_prefetch (timers (fst (step st (OnTrigger d)))) = pending_prefetch (timers st)"
    by (simp add: h)
  show "livePair (fst (step st (OnTrigger d))) =
        (case detail_upcomingSong d of
           Some u \<Rightarrow> Some (pairKey (title c) (title u))
         | None \<Rightarrow> None)"
    by (simp add: h livePair_def split: option.splits)
next
  assume a: "isEnabled st \<and> timers_ok st \<and> currentSong st = Some p \<and> detail_currentSong d = Some c"
    and n: "\<forall>e \<in> set es. \<not> is_completion e"
  define st1 where "st1 = fst (step st (OnTrigger d))"
  define st2 where "st2 = fst (run st1 es)"
  from a have c1: "0 < awaiting st1" "0 < resumeHandlers st1"
    by (simp_all add: st1_def trigger_announce)
  from a have "timers_ok st" by simp
  from timers_ok_step [OF this, of "OnTrigger d"] have "timers_ok st1" by (simp add: st1_def)
  from timers_ok_run [OF this, of es] have ok2: "timers_ok st2" by (simp add: st2_def)
  from run_counts [OF n, of st1] c1 have c2: "0 < awaiting st2" "0 < resumeHandlers st2"
    by (simp_all add: st2_def)
  from completion_resumes [OF c2(2), of vp]
  show "DispatchEvent EVENT_RESUME
           \<in> set (snd (step (fst (run (fst (step st (OnTrigger d))) es)) (OnMessage TTS_ENDED vp)))"
    by (simp add: st1_def st2_def)
  from completion_schedules [OF ok2 c2(1), of vp]
  show "map snd (pending_prefetch (timers
             (fst (step (fst (run (fst (step st (OnTrigger d))) es)) (OnMessage TTS_ENDED vp))))) =
           (case livePair (fst (run (fst (step st (OnTrigger d))) es)) of
              Some k \<Rightarrow> [(15000, k)]
            | None \<Rightarrow> [])"
    by (simp add: st1_def st2_def)
next
  assume a: "isEnabled st \<and> timers_ok st \<and> (currentSong st = None \<or> detail_currentSong d = None)"
  then have h: "handleSongChange d st =
     (schedulePrefetch (st\<lparr> currentSong := detail_currentSong d,
                            upcomingSong := detail_upcomingSong d \<rparr>),
      [DispatchEvent EVENT_RESUME])"
    by (auto simp: handleSongChange_def Let_def split: option.splits)
  then show "snd (step st (OnTrigger d)) = [DispatchEvent EVENT_RESUME]" by simp
  from a have ok: "timers_ok (st\<lparr> currentSong := detail_currentSong d,
                            upcomingSong := detail_upcomingSong d \<rparr>)" by simp
  from schedulePrefetch_pending [OF ok]
  show "pending_prefetch (timers (fst (step st (OnTrigger d)))) =
        (case (detail_currentSong d, detail_upcomingSong d) of
           (Some c', Some u) \<Rightarrow> [(nextTimerId st, 15000, pairKey (title c') (title u))]
         | _ \<Rightarrow> [])"
    by (simp add: h split: option.splits)
qed

theorem trigger_handling_witness:
  "isEnabled after_AB \<and> timers_ok after_AB \<and> currentSong after_AB = Some (song ''A'' ''X'') \<and>
   snd (step after_AB (OnTrigger (Detail (Some (song ''B'' ''Y'')) (Some (upcoming ''C'' ''Z''))))) =
     [SendMessage (SONG_ABOUT_TO_END \<lparr> currentSongTitle = Some ''A'',
        currentSongArtist = ''Unknown'', upcomingSongTitle = Some ''B'',
        upcomingSongArtist = ''Y'' \<rparr>)] \<and>
   pending_prefetch (timers (fst (step after_AB
       (OnTrigger (Detail (Some (song ''B'' ''Y'')) (Some (upcoming ''C'' ''Z''))))))) =
     [(1, 15000, ''A::B'')] \<and>
   map snd (pending_prefetch (timers (fst (step (fst (run (fst (step after_AB
       (OnTrigger (Detail (Some (song ''B'' ''Y'')) (Some (upcoming ''C'' ''Z'')))))) []))
       (OnMessage TTS_ENDED None))))) = [(15000, ''B::C'')] \<and>
   map snd (pending_prefetch (timers (fst (step (fst (run (fst (step after_AB
       (OnTrigger (Detail (Some (song ''B'' ''Y'')) (Some (upcoming ''C'' ''Z''))))))
       [OnUpdate (Detail (Some (song ''B'' ''Y'')) (Some (upcoming ''D'' ''W'')))]))
       (OnMessage TTS_ENDED None))))) = [(15000, ''B::D'')] \<and>
   isEnabled initial \<and> timers_ok initial \<and> currentSong initial = None \<and>
   snd (step initial (OnTrigger (Detail (Some (song ''A'' ''X'')) (Some (upcoming ''B'' ''Y''))))) =
     [DispatchEvent EVENT_RESUME] \<and>
   pending_prefetch (timers (fst (step initial
       (OnTrigger (Detail (Some (song ''A'' ''X'')) (Some (upcoming ''B'' ''Y''))))))) =
     [(1, 15000, ''A::B'')]"
proof -
  have a: "isEnabled after_AB \<and> timers_ok after_AB \<and> currentSong after_AB = Some (song ''A'' ''X'')"
    by (simp add: after_AB_eq timers_ok_def)
  have i: "isEnabled initial \<and> timers_ok initial \<and> currentSong initial = None"
    by (simp add: timers_ok_initial) (simp add: initial_def)
  have k: "js_split ''::'' (pairKey ''A'' ''B'') = [''A'', ''B'']"
    by (simp add: split_pairKey)
  have t: "fst (step after_AB (OnTrigger (Detail (Some (song ''B'' ''Y'')) (Some (upcoming ''C'' ''Z'')))))
      = after_AB_trigger"
    by (simp add: after_AB_trigger_def after_AB_def split_def Let_def)
  have l0: "livePair (fst (run after_AB_trigger [])) = Some ''B::C''"
    by (simp add: after_AB_trigger_eq livePair_def pairKey_def song_def upcoming_def)
  have l1: "livePair (fst (run after_AB_trigger
       [OnUpdate (Detail (Some (song ''B'' ''Y'')) (Some (upcoming ''D'' ''W'')))])) = Some ''B::D''"
    by (simp add: after_AB_trigger_eq livePair_def pairKey_def song_def upcoming_def onUpdate_def)
  from a k trigger_handling [of after_AB "Detail (Some (song ''B'' ''Y'')) (Some (upcoming ''C'' ''Z''))"
      "song ''A'' ''X''" "song ''B'' ''Y''" "[]" None]
  have b: "snd (step after_AB (OnTrigger (Detail (Some (song ''B'' ''Y'')) (Some (upcoming ''C'' ''Z''))))) =
     [SendMessage (SONG_ABOUT_TO_END \<lparr> currentSongTitle = Some ''A'',
        currentSongArtist = ''Unknown'', upcomingSongTitle = Some ''B'',
        upcomingSongArtist = ''Y'' \<rparr>)] \<and>
   pending_prefetch (timers (fst (step after_AB
       (OnTrigger (Detail (Some (song ''B'' ''Y'')) (Some (upcoming ''C'' ''Z''))))))) =
     [(1, 15000, ''A::B'')]"
    by (simp add: after_AB_eq song_def upcoming_def js_index_def pairKey_def)
  from a l0 trigger_handling [of after_AB "Detail (Some (song ''B'' ''Y'')) (Some (upcoming ''C'' ''Z''))"
      "song ''A'' ''X''" "song ''B'' ''Y''" "[]" None]
  have c0: "map snd (pending_prefetch (timers (fst (step (fst (run (fst (step after_AB
       (OnTrigger (Detail (Some (song ''B'' ''Y'')) (Some (upcoming ''C'' ''Z'')))))) []))
       (OnMessage TTS_ENDED None))))) = [(15000, ''B::C'')]"
    unfolding t by (simp add: song_def)
  from a l1 trigger_handling [of after_AB "Detail (Some (song ''B'' ''Y'')) (Some (upcoming ''C'' ''Z''))"
      "song ''A'' ''X''" "song ''B'' ''Y''"
      "[OnUpdate (Detail (Some (song ''B'' ''Y'')) (Some (upcoming ''D'' ''W'')))]" None]
  have c1: "map snd (pending_prefetch (timers (fst (step (fst (run (fst (step after_AB
       (OnTrigger (Detail (Some (song ''B'' ''Y'')) (Some (upcoming ''C'' ''Z''))))))
       [OnUpdate (Detail (Some (song ''B'' ''Y'')) (Some (upcoming ''D'' ''W'')))]))
       (OnMessage TTS_ENDED None))))) = [(15000, ''B::D'')]"
    unfolding t by (simp add: song_def)
  from i trigger_handling [of initial "Detail (Some (song ''A'' ''X'')) (Some (upcoming ''B'' ''Y''))"]
  have c: "snd (step initial (OnTrigger (Detail (Some (song ''A'' ''X'')) (Some (upcoming ''B'' ''Y''))))) =
     [DispatchEvent EVENT_RESUME] \<and>
   pending_prefetch (timers (fst (step initial
       (OnTrigger (Detail (Some (song ''A'' ''X'')) (Some (upcoming ''B'' ''Y''))))))) =
     [(1, 15000, ''A::B'')]"
    by (simp add: initial_def song_def upcoming_def pairKey_def)
  from a i b c0 c1 c show ?thesis by simp
qed

text \<open>
  The claim as stated fails. With the previous track A stored and the feature switched
  off, the Trigger for B requests no announcement, stores nothing and schedules nothing.
  With A stored, a Trigger that carries no current track publishes Resume and requests
  nothing. After the Trigger for B with C upcoming, as long as no completion signal
  comes, no prefetch timer is set, also once both timers have fired. And when an Update
  makes D the upcoming track before the completion signal, the timer set on completion
  is the one of B::D.
\<close>

theorem trigger_handling_counterexample:
  "currentSong after_AB_disabled = Some (song ''A'' ''X'') \<and>
   step after_AB_disabled (OnTrigger (Detail (Some (song ''B'' ''Y'')) (Some (upcoming ''C'' ''Z''))))
     = (after_AB_disabled, [DispatchEvent EVENT_RESUME]) \<and>
   snd (step after_AB (OnTrigger (Detail None (Some (upcoming ''C'' ''Z'')))))
     = [DispatchEvent EVENT_RESUME] \<and>
   pending_prefetch (timers (fst (run after_AB
      [OnTrigger (Detail (Some (song ''B'' ''Y'')) (Some (upcoming ''C'' ''Z''))),
       OnTimer 2 ''10:00'', OnTimer 1 ''10:00'']))) = [] \<and>
   map snd (pending_prefetch (timers (fst (run after_AB
      [OnTrigger (Detail (Some (song ''B'' ''Y'')) (Some (upcoming ''C'' ''Z''))),
       OnUpdate (Detail (Some (song ''B'' ''Y'')) (Some (upcoming ''D'' ''W''))),
       OnMessage TTS_ENDED None])))) = [(15000, ''B::D'')]"
  by (simp add: after_AB_disabled_def after_AB_eq initial_def onReturnData_def schedulePrefetch_def
      setTimeout_def clearTimeout_def onStorageChanged_def handleSongChange_def triggerAnnounce_def
      onTimer_def prefetchCallback_def performPrefetch_def onUpdate_def onMessage_def
      song_def upcoming_def pairKey_def)

section \<open>Properties of the Track Observer\<close>

lemma bindE_Inr [simp]: "bindE (Inr v) f = f v"
  by (simp add: bindE_def)

lemma bindE_Inl [simp]: "bindE (Inl e) f = Inl e"
  by (simp add: bindE_def)

lemma try_catch_total: "\<exists>r. try_catch body (\<lambda>e. Inr d) = Inr r"
  by (cases body) (simp_all add: try_catch_def)

lemma getNextSongData_total: "\<exists>r. getNextSongData pg = Inr r"
  unfolding getNextSongData_def by (rule try_catch_total)

lemma getPlayerStatus_total: "\<exists>r. getPlayerStatus pg md = Inr r"
  unfolding getPlayerStatus_def by (rule try_catch_total)

lemma embed_renderer_truthy [simp]: "truthy (embed_renderer r)"
  by (simp add: embed_renderer_def)

lemma embed_entry_not_throw [simp]: "embed_entry e \<noteq> JThrow" "JThrow \<noteq> embed_entry e"
  by (cases e; simp)+

lemma unwrap_embed:
  "unwrap (embed_entry e) =
     Inr (case renderer_of e of Some r \<Rightarrow> embed_renderer r | None \<Rightarrow> JUndefined)"
  by (cases e) (simp_all add: unwrap_def orElse_def optProp_def embed_renderer_def)

lemma selected_embed:
  "getProp (embed_renderer r) ''selected'' = Inr (JBool (r_selected r))"
  by (simp add: embed_renderer_def)

lemma findSelected_embed:
  "\<exists>k. findSelected (map embed_entry es) i = Inr k \<and>
     (case k of
        None \<Rightarrow> after_selected es = None \<and> (\<forall>e \<in> set es. \<not> is_selected e)
      | Some j \<Rightarrow> i \<le> j \<and> j - i < length es \<and>
          after_selected es = (if Suc (j - i) < length es then Some (es ! Suc (j - i)) else None))"
proof (induction es arbitrary: i)
  case Nil
  then show ?case by simp
next
  case (Cons e es)
  show ?case
  proof (cases "is_selected e")
    case True
    then obtain r where r: "renderer_of e = Some r" "r_selected r"
      by (auto simp: is_selected_def split: option.splits)
    then have "findSelected (map embed_entry (e # es)) i = Inr (Some i)"
      by (simp add: unwrap_embed selected_embed)
    with True show ?thesis by (cases es) simp_all
  next
    case False
    then have step: "findSelected (map embed_entry (e # es)) i = findSelected (map embed_entry es) (Suc i)"
      by (cases "renderer_of e") (simp_all add: unwrap_embed selected_embed is_selected_def)
    from Cons.IH [of "Suc i"] obtain k where
      k: "findSelected (map embed_entry es) (Suc i) = Inr k"
      and kk: "(case k of
        None \<Rightarrow> after_selected es = None \<and> (\<forall>e \<in> set es. \<not> is_selected e)
      | Some j \<Rightarrow> Suc i \<le> j \<and> j - Suc i < length es \<and>
          after_selected es = (if Suc (j - Suc i) < length es then Some (es ! Suc (j - Suc i)) else None))"
      by blast
    show ?thesis
    proof (cases k)
      case None
      with k kk step False show ?thesis by simp
    next
      case (Some j)
      define d where "d = j - Suc i"
      from Some kk have le: "Suc i \<le> j" and d: "d < length es"
        and a: "after_selected es = (if Suc d < length es then Some (es ! Suc d) else None)"
        by (simp_all add: d_def)
      from le have ji: "j - i = Suc d" unfolding d_def by arith
      from le have "i \<le> j" by simp
      with k step False Some d a ji show ?thesis by simp
    qed
  qed
qed

lemma runsText_embed:
  "runsText (embed_renderer r) ''title'' dflt = Inr (JStr (text_or dflt (r_title r)))"
  "runsText (embed_renderer r) ''longBylineText'' dflt = Inr (JStr (text_or dflt (r_artist r)))"
  by (auto simp: runsText_def embed_renderer_def embed_text_def optProp_def orElse_def text_or_def
      split: option.splits)

lemma nextInQueue_embed:
  "nextInQueue (map embed_entry es) =
     Inr (case after_selected es of
            None \<Rightarrow> None
          | Some n \<Rightarrow>
              (case renderer_of n of
                 None \<Rightarrow> None
               | Some r \<Rightarrow>
                   Some \<lparr> title = JStr (text_or ''Unknown Title'' (r_title r)),
                          artist = JStr (text_or ''Unknown Artist'' (r_artist r)) \<rparr>))"
proof (cases "es = []")
  case True
  then show ?thesis by (simp add: nextInQueue_def)
next
  case False
  from findSelected_embed [of es 0] obtain k where
    k: "findSelected (map embed_entry es) 0 = Inr k"
    and kk: "(case k of
        None \<Rightarrow> after_selected es = None \<and> (\<forall>e \<in> set es. \<not> is_selected e)
      | Some j \<Rightarrow> 0 \<le> j \<and> j - 0 < length es \<and>
          after_selected es = (if Suc (j - 0) < length es then Some (es ! Suc (j - 0)) else None))"
    by blast
  show ?thesis
  proof (cases k)
    case None
    with k kk False show ?thesis by (simp add: nextInQueue_def)
  next
    case (Some j)
    show ?thesis
    proof (cases "Suc j < length es")
      case True
      with Some kk have a: "after_selected es = Some (es ! Suc j)" by simp
      from True k Some False a show ?thesis
        by (cases "renderer_of (es ! Suc j)")
           (simp_all add: nextInQueue_def unwrap_embed runsText_embed)
    next
      case no: False
      with Some kk have "after_selected es = None" by simp
      with no k Some False show ?thesis by (simp add: nextInQueue_def)
    qed
  qed
qed

lemma queue_page_reads:
  "JThrow \<notin> set ms \<Longrightarrow> JThrow \<notin> set as \<Longrightarrow>
   getNextSongData_body (queue_page ms as) = nextInQueue (ms @ as)"
  by (simp add: getNextSongData_body_def queue_page_def findStore_def optProp_def orElse_def
      findQueueState_def fromQueueState_def orEmpty_def)


text \<open>
  On every page whose store holds a queue of typed entries, getNextSongData returns what
  the typed reading of the two lists gives.
\<close>

lemma body_refines:
  "getNextSongData_body (queue_page (map embed_entry mainItems) (map embed_entry automixItems))
     = Inr (readUpcoming_spec mainItems automixItems)"
proof -
  have "getNextSongData_body (queue_page (map embed_entry mainItems) (map embed_entry automixItems))
      = nextInQueue (map embed_entry mainItems @ map embed_entry automixItems)"
    by (rule queue_page_reads) auto
  with nextInQueue_embed [of "mainItems @ automixItems"] show ?thesis
    by (simp add: readUpcoming_spec_def)
qed

lemma observer_refines:
  "getNextSongData (queue_page (map embed_entry mainItems) (map embed_entry automixItems))
     = Inr (readUpcoming_spec mainItems automixItems)"
  by (simp add: getNextSongData_def try_catch_def body_refines)

text \<open>The function of src/injection/injector.ts makes the same reads on these pages.\<close>

lemma inj_same_on_queue_page:
  "getNextSongData_inj (queue_page ms as) = getNextSongData_body (queue_page ms as)"
  "getNextSongData_inj (queue_page_nested ms as) = getNextSongData_body (queue_page ms as)"
  by (simp_all add: getNextSongData_inj_def getNextSongData_body_def queue_page_def
      queue_page_nested_def findStore_def optProp_def orElse_def findQueueState_def)

lemma observer_inj_refines:
  "getNextSongData_inj (queue_page (map embed_entry mainItems) (map embed_entry automixItems))
     = Inr (readUpcoming_spec mainItems automixItems)"
  "getNextSongData_inj (queue_page_nested (map embed_entry mainItems) (map embed_entry automixItems))
     = Inr (readUpcoming_spec mainItems automixItems)"
  by (simp_all add: inj_same_on_queue_page body_refines)

lemma queue_page_nested_reads:
  "getNextSongData_body (queue_page_nested ms as) = getNextSongData_body (queue_page ms as)"
  by (simp add: getNextSongData_body_def queue_page_def queue_page_nested_def findStore_def
      optProp_def orElse_def findQueueState_def)

lemma observer_refines_nested:
  "getNextSongData (queue_page_nested (map embed_entry mainItems) (map embed_entry automixItems))
     = Inr (readUpcoming_spec mainItems automixItems)"
  using observer_refines [of mainItems automixItems]
  by (simp add: getNextSongData_def queue_page_nested_reads)

text \<open>Without a store the read is absent.\<close>

lemma no_store_absent:
  "getNextSongData \<lparr> queueEl = JNull, player = p, byline = b, video = v \<rparr> = Inr None"
  by (simp add: getNextSongData_def getNextSongData_body_def try_catch_def findStore_def
      optProp_def orElse_def)

text \<open>
  C6, as amended. For every queue of entries (each a renderer in one of the two
  envelopes, or neither), getNextSongData reads the main list followed by the automix
  list, finds the first selected entry and returns absent when there is none or when it
  is the last; otherwise it returns the title and artist of the entry behind it, with
  the defaults Unknown Title and Unknown Artist for a missing or empty text, and absent
  when that entry is in neither envelope. This holds on both paths to the store and to
  the queue state, for the function of part_000 and for the one of
  src/injection/injector.ts.
\<close>

theorem readUpcoming_refines:
  "getNextSongData (queue_page (map embed_entry mainItems) (map embed_entry automixItems))
     = Inr (readUpcoming_spec mainItems automixItems) \<and>
   getNextSongData (queue_page_nested (map embed_entry mainItems) (map embed_entry automixItems))
     = Inr (readUpcoming_spec mainItems automixItems) \<and>
   getNextSongData_inj (queue_page (map embed_entry mainItems) (map embed_entry automixItems))
     = Inr (readUpcoming_spec mainItems automixItems) \<and>
   getNextSongData_inj (queue_page_nested (map embed_entry mainItems) (map embed_entry automixItems))
     = Inr (readUpcoming_spec mainItems automixItems)"
  using observer_refines observer_refines_nested observer_inj_refines by simp

theorem readUpcoming_refines_witness:
  "getNextSongData (queue_page
      (map embed_entry [Plain \<lparr> r_selected = False, r_title = Some ''A'', r_artist = Some ''X'' \<rparr>,
                        InWrapper \<lparr> r_selected = True, r_title = Some ''B'', r_artist = Some ''Y'' \<rparr>])
      (map embed_entry [Plain \<lparr> r_selected = False, r_title = Some ''C'', r_artist = None \<rparr>]))
     = Inr (Some \<lparr> title = JStr ''C'', artist = JStr ''Unknown Artist'' \<rparr>)"
  using readUpcoming_refines [of
      "[Plain \<lparr> r_selected = False, r_title = Some ''A'', r_artist = Some ''X'' \<rparr>,
        InWrapper \<lparr> r_selected = True, r_title = Some ''B'', r_artist = Some ''Y'' \<rparr>]"
      "[Plain \<lparr> r_selected = False, r_title = Some ''C'', r_artist = None \<rparr>]"]
  by (simp add: readUpcoming_spec_def is_selected_def text_or_def)

text \<open>
  The claim as stated fails: the selected entry is followed by an entry in neither
  envelope; the claim's reading gives the two defaults, the code gives absent.
\<close>

theorem readUpcoming_counterexample:
  "getNextSongData (queue_page
      (map embed_entry [Plain \<lparr> r_selected = True, r_title = Some ''A'', r_artist = Some ''X'' \<rparr>,
                        Unknown]) (map embed_entry []))
     = Inr None \<and>
   readUpcoming_claimed
      [Plain \<lparr> r_selected = True, r_title = Some ''A'', r_artist = Some ''X'' \<rparr>, Unknown] []
     = Some \<lparr> title = JStr ''Unknown Title'', artist = JStr ''Unknown Artist'' \<rparr>"
  using observer_refines [of
      "[Plain \<lparr> r_selected = True, r_title = Some ''A'', r_artist = Some ''X'' \<rparr>, Unknown]" "[]"]
  by (simp add: readUpcoming_spec_def readUpcoming_claimed_def is_selected_def text_or_def)

text \<open>
  The reads of part_000 stand in a try block whose handler returns null: they return on
  every page.
\<close>

lemma observer_never_propagates:
  "(\<exists>r. getNextSongData pg = Inr r) \<and> (\<exists>r. getPlayerStatus pg md = Inr r)"
  using getNextSongData_total getPlayerStatus_total by blast

text \<open>
  C7. getNextSongData of src/injection/injector.ts has no try block: a store whose
  getState throws, or a queue with a null entry, makes it raise, where the function of
  part_000 returns null.
\<close>

theorem observer_inj_propagates:
  "getNextSongData_inj page_getState_throws = Inl Thrown \<and>
   getNextSongData_inj page_null_entry = Inl TypeError \<and>
   getNextSongData page_getState_throws = Inr None \<and>
   getNextSongData page_null_entry = Inr None"
  by (simp add: getNextSongData_inj_def getNextSongData_def getNextSongData_body_def try_catch_def
      page_getState_throws_def page_null_entry_def queue_page_def findStore_def optProp_def
      orElse_def findQueueState_def fromQueueState_def orEmpty_def nextInQueue_def unwrap_def)

section \<open>Properties of the trap\<close>

lemma broadcast_cases:
  "\<exists>cs us. getPlayerStatus pg (metadata_cell st) = Inr cs \<and> getNextSongData pg = Inr us \<and>
     broadcast kind reason pg st =
       Inr (case cs of
              None \<Rightarrow> (st, [])
            | Some c \<Rightarrow> (st\<lparr> currentTitle := title c, lastUpcomingTitle := titleOrEmpty us \<rparr>,
                          [Dispatch kind (Detail cs us) reason]))"
proof -
  from getPlayerStatus_total obtain cs where cs: "getPlayerStatus pg (metadata_cell st) = Inr cs"
    by blast
  from getNextSongData_total obtain us where us: "getNextSongData pg = Inr us" by blast
  from cs us show ?thesis by (cases cs) (simp_all add: broadcast_def)
qed

lemma broadcast_keeps:
  "\<exists>st' effs. broadcast kind reason pg st = Inr (st', effs) \<and> isLocked st' = isLocked st \<and>
     metadata_cell st' = metadata_cell st \<and> (\<forall>x \<in> set effs. \<not> is_real_play x)"
proof -
  from broadcast_cases [of pg st kind reason] obtain cs us where
    "broadcast kind reason pg st =
       Inr (case cs of
              None \<Rightarrow> (st, [])
            | Some c \<Rightarrow> (st\<lparr> currentTitle := title c, lastUpcomingTitle := titleOrEmpty us \<rparr>,
                          [Dispatch kind (Detail cs us) reason]))" by blast
  then show ?thesis by (cases cs) simp_all
qed

lemma metadata_set_keeps:
  "\<exists>st' effs. metadata_set nv pg st = Inr (st', effs) \<and> (isLocked st \<longrightarrow> isLocked st') \<and>
     metadata_cell st' = nv \<and> (\<forall>x \<in> set effs. \<not> is_real_play x)"
proof (cases nv)
  case None
  then show ?thesis by (simp add: metadata_set_def)
next
  case (Some m)
  show ?thesis
  proof (cases "JStr (md_title m) = currentTitle st")
    case True
    with Some show ?thesis by (simp add: metadata_set_def)
  next
    case False
    from broadcast_keeps [of EVENT_TRIGGER "''SONG_CHANGED''" pg "st\<lparr> metadata_cell := nv, isLocked := True \<rparr>"]
    obtain st' effs where
      b: "broadcast EVENT_TRIGGER ''SONG_CHANGED'' pg (st\<lparr> metadata_cell := nv, isLocked := True \<rparr>) = Inr (st', effs)"
      and k: "isLocked st'" "metadata_cell st' = nv" "\<forall>x \<in> set effs. \<not> is_real_play x"
      by auto
    from Some False b k show ?thesis
      by (auto simp: metadata_set_def split: option.splits)
  qed
qed

lemma trap_step_locked:
  assumes "\<not> is_resume e"
  shows "\<exists>st' effs. trap_step st e = Inr (st', effs) \<and>
     (isLocked st \<longrightarrow> isLocked st' \<and> (\<forall>x \<in> set effs. \<not> is_real_play x))"
proof (cases e)
  case (PlayCall el)
  then show ?thesis by (simp add: play_def)
next
  case (SetMetadata nv pg)
  with metadata_set_keeps [of nv pg st] show ?thesis by auto
next
  case (ResumeEvent pg)
  with assms show ?thesis by simp
next
  case (RequestDataEvent pg)
  with broadcast_keeps [of EVENT_RETURN_DATA "''REQUESTED''" pg st] show ?thesis
    by (auto simp: onRequestData_def)
next
  case (PollTick pg)
  from getNextSongData_total obtain us where us: "getNextSongData pg = Inr us" by blast
  with PollTick broadcast_keeps [of EVENT_UPDATE "''QUEUE_UPDATED''" pg st] show ?thesis
    by (auto simp: pollQueue_def)
qed

lemma trap_run_locked:
  "isLocked st \<Longrightarrow> \<forall>e \<in> set es. \<not> is_resume e \<Longrightarrow>
   \<exists>st' effs. trap_run st es = Inr (st', effs) \<and> isLocked st' \<and> (\<forall>x \<in> set effs. \<not> is_real_play x)"
proof (induction es arbitrary: st)
  case Nil
  then show ?case by simp
next
  case (Cons e es)
  from Cons.prems trap_step_locked [of e st] obtain st1 out1 where
    s: "trap_step st e = Inr (st1, out1)" and l: "isLocked st1"
    and n: "\<forall>x \<in> set out1. \<not> is_real_play x" by auto
  from Cons.IH [OF l] Cons.prems obtain st2 out2 where
    r: "trap_run st1 es = Inr (st2, out2)" and l2: "isLocked st2"
    and n2: "\<forall>x \<in> set out2. \<not> is_real_play x" by auto
  from s r l2 n n2 show ?case by auto
qed

lemma plays_locked: "isLocked st \<Longrightarrow> \<forall>r \<in> set (plays els st). r = (ResolvedVoid, [])"
  by (induction els) (simp_all add: play_def)

lemma getPlayerStatus_title:
  assumes "getPlayerStatus pg (Some m) = Inr (Some c)" "md_title m \<noteq> []"
  shows "title c = JStr (md_title m)"
proof -
  from assms(1) have "getPlayerStatus_body pg (Some m) = Inr (Some c)"
    by (cases "getPlayerStatus_body pg (Some m)") (simp_all add: getPlayerStatus_def try_catch_def)
  with assms(2) show ?thesis
    by (auto simp: getPlayerStatus_body_def bindE_def orElse_def Let_def split: sum.splits if_splits)
qed

lemma page_plain_status:
  "getPlayerStatus page_plain (Some (MediaMetadata t a [])) =
     Inr (Some \<lparr> title = JStr t, artist = JStr a, album = [], isPaused = True \<rparr>)"
  "getNextSongData page_plain = Inr None"
  by (simp_all add: getPlayerStatus_def getPlayerStatus_body_def try_catch_def page_plain_def
      optProp_def orElse_def albumFromByline_def js_split_def js_trim_def js_white_def
      strip_prefixes.simps getNextSongData_def getNextSongData_body_def findStore_def)

lemma metadata_set_lock:
  "\<exists>st' effs. metadata_set nv pg st = Inr (st', effs) \<and>
     isLocked st' = (isLocked st \<or> relocks st (SetMetadata nv pg)) \<and>
     (\<forall>x \<in> set effs. \<not> is_real_play x)"
proof (cases nv)
  case None
  then show ?thesis by (simp add: metadata_set_def)
next
  case (Some m)
  show ?thesis
  proof (cases "JStr (md_title m) = currentTitle st")
    case True
    with Some show ?thesis by (simp add: metadata_set_def)
  next
    case False
    from broadcast_keeps [of EVENT_TRIGGER "''SONG_CHANGED''" pg "st\<lparr> metadata_cell := nv, isLocked := True \<rparr>"]
    obtain st' effs where
      b: "broadcast EVENT_TRIGGER ''SONG_CHANGED'' pg (st\<lparr> metadata_cell := nv, isLocked := True \<rparr>) = Inr (st', effs)"
      and k: "isLocked st'" "\<forall>x \<in> set effs. \<not> is_real_play x"
      by auto
    from Some False b k show ?thesis
      by (auto simp: metadata_set_def split: option.splits)
  qed
qed

lemma trap_step_lock:
  "\<exists>st' effs. trap_step st e = Inr (st', effs) \<and>
     isLocked st' = (\<not> is_resume e \<and> (isLocked st \<or> relocks st e))"
proof (cases e)
  case (PlayCall el)
  then show ?thesis by simp
next
  case (SetMetadata nv pg)
  with metadata_set_lock [of nv pg st] show ?thesis by auto
next
  case (ResumeEvent pg)
  then show ?thesis by (simp add: onResume_def)
next
  case (RequestDataEvent pg)
  with broadcast_keeps [of EVENT_RETURN_DATA "''REQUESTED''" pg st] show ?thesis
    by (auto simp: onRequestData_def)
next
  case (PollTick pg)
  from getNextSongData_total obtain us where us: "getNextSongData pg = Inr us" by blast
  with PollTick broadcast_keeps [of EVENT_UPDATE "''QUEUE_UPDATED''" pg st] show ?thesis
    by (auto simp: pollQueue_def)
qed

lemma trap_step_inj_lock:
  "isLocked (fst (trap_step_inj st e)) = (\<not> is_resume e \<and> (isLocked st \<or> relocks_inj st e))"
proof (cases e)
  case (SetMetadata nv pg)
  then show ?thesis
    by (cases nv) (auto simp: metadata_set_inj_def Let_def split: option.splits)
qed (simp_all add: onResume_def)

lemma trap_step_inj_no_play:
  "isLocked st \<Longrightarrow> \<not> is_resume e \<Longrightarrow> \<forall>x \<in> set (snd (trap_step_inj st e)). \<not> is_real_play x"
proof (cases e)
  case (SetMetadata nv pg)
  then show ?thesis
    by (cases nv) (auto simp: metadata_set_inj_def Let_def split: option.splits)
qed (simp_all add: play_def)

lemma trap_run_inj_locked:
  "isLocked st \<Longrightarrow> \<forall>e \<in> set es. \<not> is_resume e \<Longrightarrow>
   isLocked (fst (trap_run_inj st es)) \<and> (\<forall>x \<in> set (snd (trap_run_inj st es)). \<not> is_real_play x)"
proof (induction es arbitrary: st)
  case Nil
  then show ?case by simp
next
  case (Cons e es)
  from Cons.prems have l: "isLocked (fst (trap_step_inj st e))"
    by (simp add: trap_step_inj_lock)
  from Cons.prems trap_step_inj_no_play [of st e]
  have n: "\<forall>x \<in> set (snd (trap_step_inj st e)). \<not> is_real_play x" by simp
  from Cons.IH [OF l] Cons.prems n show ?case by (auto simp: split_def Let_def)
qed

lemma trap_run_unlocked:
  "\<not> isLocked st \<Longrightarrow> \<forall>e \<in> set es. \<not> is_assignment e \<Longrightarrow>
   \<exists>st' effs. trap_run st es = Inr (st', effs) \<and> \<not> isLocked st'"
proof (induction es arbitrary: st)
  case Nil
  then show ?case by simp
next
  case (Cons e es)
  from Cons.prems have na: "\<not> relocks st e" by (cases e) simp_all
  from trap_step_lock [of st e] obtain st1 out1 where
    s: "trap_step st e = Inr (st1, out1)"
    and l: "isLocked st1 = (\<not> is_resume e \<and> (isLocked st \<or> relocks st e))" by blast
  from l na Cons.prems have u: "\<not> isLocked st1" by simp
  from Cons.IH [OF u] Cons.prems obtain st2 out2 where
    r: "trap_run st1 es = Inr (st2, out2)" and u2: "\<not> isLocked st2" by auto
  from s r u2 show ?case by auto
qed

lemma trap_run_inj_unlocked:
  "\<not> isLocked st \<Longrightarrow> \<forall>e \<in> set es. \<not> is_assignment e \<Longrightarrow> \<not> isLocked (fst (trap_run_inj st es))"
proof (induction es arbitrary: st)
  case Nil
  then show ?case by simp
next
  case (Cons e es)
  from Cons.prems have na: "\<not> relocks_inj st e" by (cases e) simp_all
  with Cons.prems have u: "\<not> isLocked (fst (trap_step_inj st e))"
    by (simp add: trap_step_inj_lock)
  from Cons.IH [OF u] Cons.prems show ?case by (simp add: split_def Let_def)
qed

text \<open>
  C1, as amended. While the lock is on, a playback-start call returns the resolved
  promise and does nothing, as does every call of a sequence, and whatever reaches the
  trap short of a Resume event leaves the lock on and starts no real playback. While the
  lock is off, a call is the real play on its element. The Resume listener clears the
  lock and calls the real play on the video element when there is one; after it, as
  long as no assignment to the metadata comes in between, the lock is off and a
  playback-start call is the real play. In every step the lock is on afterwards exactly
  when the step is no Resume and either the lock was on or the step is an assignment
  that sets it. All of this holds for the trap of part_000 and for the trap of
  src/injection/injector.ts.
\<close>

theorem lock_exclusivity:
  "(isLocked st \<longrightarrow>
      play el st = (ResolvedVoid, []) \<and> (\<forall>r \<in> set (plays els st). r = (ResolvedVoid, []))) \<and>
   (isLocked st \<and> (\<forall>e \<in> set es. \<not> is_resume e) \<longrightarrow>
      (\<exists>st' effs. trap_run st es = Inr (st', effs) \<and> isLocked st' \<and>
         (\<forall>x \<in> set effs. \<not> is_real_play x)) \<and>
      isLocked (fst (trap_run_inj st es)) \<and>
      (\<forall>x \<in> set (snd (trap_run_inj st es)). \<not> is_real_play x)) \<and>
   (\<not> isLocked st \<longrightarrow> play el st = (OriginalPlay el, [RealPlay el])) \<and>
   onResume pg st =
     (st\<lparr> isLocked := False \<rparr>, case video pg of Some v \<Rightarrow> [RealPlay v] | None \<Rightarrow> []) \<and>
   ((\<forall>e \<in> set es'. \<not> is_assignment e) \<longrightarrow>
      (\<exists>st' effs. trap_run st (ResumeEvent pg # es') = Inr (st', effs) \<and> \<not> isLocked st' \<and>
         play el st' = (OriginalPlay el, [RealPlay el])) \<and>
      \<not> isLocked (fst (trap_run_inj st (ResumeEvent pg # es'))) \<and>
      play el (fst (trap_run_inj st (ResumeEvent pg # es'))) = (OriginalPlay el, [RealPlay el])) \<and>
   (\<exists>st' effs. trap_step st e = Inr (st', effs) \<and>
      isLocked st' = (\<not> is_resume e \<and> (isLocked st \<or> relocks st e))) \<and>
   isLocked (fst (trap_step_inj st e)) = (\<not> is_resume e \<and> (isLocked st \<or> relocks_inj st e))"
proof (intro conjI impI)
  assume "isLocked st"
  then show "play el st = (ResolvedVoid, [])" by (simp add: play_def)
  from \<open>isLocked st\<close> show "\<forall>r \<in> set (plays els st). r = (ResolvedVoid, [])"
    by (rule plays_locked)
next
  assume a: "isLocked st \<and> (\<forall>e \<in> set es. \<not> is_resume e)"
  with trap_run_locked [of st es]
  show "\<exists>st' effs. trap_run st es = Inr (st', effs) \<and> isLocked st' \<and>
         (\<forall>x \<in> set effs. \<not> is_real_play x)" by simp
  from a trap_run_inj_locked [of st es]
  show "isLocked (fst (trap_run_inj st es))"
    and "\<forall>x \<in> set (snd (trap_run_inj st es)). \<not> is_real_play x" by simp_all
next
  assume "\<not> isLocked st"
  then show "play el st = (OriginalPlay el, [RealPlay el])" by (simp add: play_def)
next
  show "onResume pg st =
     (st\<lparr> isLocked := False \<rparr>, case video pg of Some v \<Rightarrow> [RealPlay v] | None \<Rightarrow> [])"
    by (simp add: onResume_def)
next
  assume a: "\<forall>e \<in> set es'. \<not> is_assignment e"
  have u: "\<not> isLocked (fst (onResume pg st))" by (simp add: onResume_def)
  from trap_run_unlocked [OF u a] obtain st' effs where
    r: "trap_run (fst (onResume pg st)) es' = Inr (st', effs)" and n: "\<not> isLocked st'" by blast
  then have "trap_run st (ResumeEvent pg # es') = Inr (st', snd (onResume pg st) @ effs)"
    by (simp add: split_def)
  with n show "\<exists>st' effs. trap_run st (ResumeEvent pg # es') = Inr (st', effs) \<and> \<not> isLocked st' \<and>
         play el st' = (OriginalPlay el, [RealPlay el])"
    by (simp add: play_def)
  from trap_run_inj_unlocked [OF u a]
  show i: "\<not> isLocked (fst (trap_run_inj st (ResumeEvent pg # es')))"
    by (simp add: split_def Let_def)
  then show "play el (fst (trap_run_inj st (ResumeEvent pg # es'))) = (OriginalPlay el, [RealPlay el])"
    by (simp add: play_def)
next
  show "\<exists>st' effs. trap_step st e = Inr (st', effs) \<and>
      isLocked st' = (\<not> is_resume e \<and> (isLocked st \<or> relocks st e))"
    by (rule trap_step_lock)
next
  show "isLocked (fst (trap_step_inj st e)) = (\<not> is_resume e \<and> (isLocked st \<or> relocks_inj st e))"
    by (rule trap_step_inj_lock)
qed

theorem lock_exclusivity_witness:
  "isLocked (trap_after_A\<lparr> isLocked := True \<rparr>) \<and>
   play 0 (trap_after_A\<lparr> isLocked := True \<rparr>) = (ResolvedVoid, []) \<and>
   plays [0, 0, 1] (trap_after_A\<lparr> isLocked := True \<rparr>)
     = [(ResolvedVoid, []), (ResolvedVoid, []), (ResolvedVoid, [])] \<and>
   trap_run (trap_after_A\<lparr> isLocked := True \<rparr>) [PlayCall 0, PlayCall 1]
     = Inr (trap_after_A\<lparr> isLocked := True \<rparr>, []) \<and>
   trap_run_inj (trap_after_A\<lparr> isLocked := True \<rparr>) [PlayCall 0, PlayCall 1]
     = (trap_after_A\<lparr> isLocked := True \<rparr>, []) \<and>
   \<not> isLocked trap_after_A \<and>
   play 0 trap_after_A = (OriginalPlay 0, [RealPlay 0]) \<and>
   trap_run (trap_after_A\<lparr> isLocked := True \<rparr>) [ResumeEvent page_plain, PlayCall 1, PlayCall 0]
     = Inr (trap_after_A, [RealPlay 0, RealPlay 1, RealPlay 0]) \<and>
   trap_run_inj (trap_after_A\<lparr> isLocked := True \<rparr>) [ResumeEvent page_plain, PlayCall 1, PlayCall 0]
     = (trap_after_A, [RealPlay 0, RealPlay 1, RealPlay 0])"
  using lock_exclusivity [of "trap_after_A\<lparr> isLocked := True \<rparr>" 0 "[0, 0, 1]"
      "[PlayCall 0, PlayCall 1]" page_plain "[PlayCall 1]" "PlayCall 0"]
    lock_exclusivity [of trap_after_A 0 "[]" "[]" page_plain "[]" "PlayCall 0"]
  by (simp add: trap_after_A_def page_plain_def play_def onResume_def)

text \<open>
  The claim as stated fails: after a Resume the track B is assigned, and the
  playback-start call that comes first after the Resume returns the resolved promise;
  the one real play of the run is the Resume listener's.
\<close>

theorem lock_exclusivity_counterexample:
  "trap_run (trap_after_A\<lparr> isLocked := True \<rparr>)
     [ResumeEvent page_plain, SetMetadata (Some (MediaMetadata ''B'' ''Y'' [])) page_plain, PlayCall 0]
   = Inr (trap_locked_B,
       [RealPlay 0, RealPause 0,
        Dispatch EVENT_TRIGGER
          (Detail (Some \<lparr> title = JStr ''B'', artist = JStr ''Y'', album = [], isPaused = True \<rparr>) None)
          ''SONG_CHANGED'']) \<and>
   play 0 trap_locked_B = (ResolvedVoid, []) \<and>
   trap_run_inj (trap_after_A\<lparr> isLocked := True \<rparr>)
     [ResumeEvent page_plain, SetMetadata (Some (MediaMetadata ''B'' ''Y'' [])) page_plain, PlayCall 0]
   = (trap_locked_B, [RealPlay 0, RealPause 0, Dispatch EVENT_TRIGGER (Detail None None) []])"
  by (simp add: trap_after_A_def trap_locked_B_def metadata_set_def broadcast_def page_plain_status
      titleOrEmpty_def onResume_def play_def metadata_set_inj_def) (simp add: page_plain_def)

text \<open>
  C3, as amended. Every assignment is stored. A null value, or a value whose title is
  the stored title, does nothing else. A value that is not null and whose title, empty
  or not, is not the stored title starts the change: with a video element on the page
  and, in part_000, a current track from the Observer's read, the lock is set, the
  video element is paused and a Trigger is published, with the current and the upcoming
  read in part_000 and with no track in src/injection/injector.ts; the stored title
  becomes the assigned title (in part_000 when that title is not empty).
\<close>

theorem metadata_assignment:
  "(\<exists>st' effs. metadata_set nv pg st = Inr (st', effs) \<and> metadata_get st' = nv) \<and>
   metadata_get (fst (metadata_set_inj nv pg st)) = nv \<and>
   (nv = None \<or> (\<exists>m. nv = Some m \<and> JStr (md_title m) = currentTitle st) \<longrightarrow>
      metadata_set nv pg st = Inr (st\<lparr> metadata_cell := nv \<rparr>, []) \<and>
      metadata_set_inj nv pg st = (st\<lparr> metadata_cell := nv \<rparr>, [])) \<and>
   (nv = Some m \<and> JStr (md_title m) \<noteq> currentTitle st \<and> video pg = Some v \<longrightarrow>
      (getPlayerStatus pg nv = Inr (Some c) \<and> getNextSongData pg = Inr us \<longrightarrow>
         (\<exists>st'. metadata_set nv pg st =
              Inr (st', [RealPause v, Dispatch EVENT_TRIGGER (Detail (Some c) us) ''SONG_CHANGED'']) \<and>
            isLocked st' \<and>
            (md_title m \<noteq> [] \<longrightarrow> currentTitle st' = JStr (md_title m) \<and> title c = JStr (md_title m)))) \<and>
      metadata_set_inj nv pg st =
        (st\<lparr> metadata_cell := nv, currentTitle := JStr (md_title m), isLocked := True \<rparr>,
         [RealPause v, Dispatch EVENT_TRIGGER (Detail None None) []]))"
proof (intro conjI impI)
  from metadata_set_keeps [of nv pg st]
  show "\<exists>st' effs. metadata_set nv pg st = Inr (st', effs) \<and> metadata_get st' = nv"
    by (auto simp: metadata_get_def)
next
  show "metadata_get (fst (metadata_set_inj nv pg st)) = nv"
    by (auto simp: metadata_get_def metadata_set_inj_def Let_def split: option.splits)
next
  assume a: "nv = None \<or> (\<exists>m. nv = Some m \<and> JStr (md_title m) = currentTitle st)"
  then show "metadata_set nv pg st = Inr (st\<lparr> metadata_cell := nv \<rparr>, [])"
    by (auto simp: metadata_set_def)
  from a show "metadata_set_inj nv pg st = (st\<lparr> metadata_cell := nv \<rparr>, [])"
    by (auto simp: metadata_set_inj_def)
next
  assume a: "nv = Some m \<and> JStr (md_title m) \<noteq> currentTitle st \<and> video pg = Some v"
  then show "metadata_set_inj nv pg st =
        (st\<lparr> metadata_cell := nv, currentTitle := JStr (md_title m), isLocked := True \<rparr>,
         [RealPause v, Dispatch EVENT_TRIGGER (Detail None None) []])"
    by (simp add: metadata_set_inj_def)
next
  assume a: "nv = Some m \<and> JStr (md_title m) \<noteq> currentTitle st \<and> video pg = Some v"
    and r: "getPlayerStatus pg nv = Inr (Some c) \<and> getNextSongData pg = Inr us"
  from a r have t: "md_title m \<noteq> [] \<longrightarrow> title c = JStr (md_title m)"
    using getPlayerStatus_title [of pg m c] by simp
  from a r t
  show "\<exists>st'. metadata_set nv pg st =
              Inr (st', [RealPause v, Dispatch EVENT_TRIGGER (Detail (Some c) us) ''SONG_CHANGED'']) \<and>
            isLocked st' \<and>
            (md_title m \<noteq> [] \<longrightarrow> currentTitle st' = JStr (md_title m) \<and> title c = JStr (md_title m))"
    by (simp add: metadata_set_def broadcast_def)
qed

text \<open>
  The claim as stated fails: with A stored, the assignment of a value with the empty
  title sets the lock, pauses and publishes a Trigger, in the setter of part_000 and in
  the setter of src/injection/injector.ts.
\<close>

theorem metadata_assignment_counterexample:
  "\<not> claimed_track_change trap_after_A (MediaMetadata [] [] []) \<and>
   metadata_set (Some (MediaMetadata [] [] [])) page_plain trap_after_A =
     Inr (\<lparr> isLocked = True, currentTitle = JStr [], lastUpcomingTitle = JStr [],
            metadata_cell = Some (MediaMetadata [] [] []) \<rparr>,
          [RealPause 0,
           Dispatch EVENT_TRIGGER
             (Detail (Some \<lparr> title = JStr [], artist = JStr [], album = [], isPaused = True \<rparr>) None)
             ''SONG_CHANGED'']) \<and>
   metadata_set_inj (Some (MediaMetadata [] [] [])) page_plain trap_after_A =
     (\<lparr> isLocked = True, currentTitle = JStr [], lastUpcomingTitle = JStr [],
        metadata_cell = Some (MediaMetadata [] [] []) \<rparr>,
      [RealPause 0, Dispatch EVENT_TRIGGER (Detail None None) []])"
  by (simp add: claimed_track_change_def trap_after_A_def metadata_set_def broadcast_def
      page_plain_status titleOrEmpty_def metadata_set_inj_def) (simp add: page_plain_def)

theorem metadata_assignment_witness:
  "video page_plain = Some 0 \<and>
   metadata_set (Some (MediaMetadata ''B'' ''Y'' [])) page_plain trap_after_A =
     Inr (\<lparr> isLocked = True, currentTitle = JStr ''B'', lastUpcomingTitle = JStr [],
            metadata_cell = Some (MediaMetadata ''B'' ''Y'' []) \<rparr>,
          [RealPause 0,
           Dispatch EVENT_TRIGGER
             (Detail (Some \<lparr> title = JStr ''B'', artist = JStr ''Y'', album = [], isPaused = True \<rparr>) None)
             ''SONG_CHANGED'']) \<and>
   metadata_set_inj (Some (MediaMetadata ''B'' ''Y'' [])) page_plain trap_after_A =
     (\<lparr> isLocked = True, currentTitle = JStr ''B'', lastUpcomingTitle = JStr [],
        metadata_cell = Some (MediaMetadata ''B'' ''Y'' []) \<rparr>,
      [RealPause 0, Dispatch EVENT_TRIGGER (Detail None None) []]) \<and>
   metadata_set (Some (MediaMetadata ''A'' ''X'' [])) page_plain trap_after_A = Inr (trap_after_A, []) \<and>
   metadata_set_inj (Some (MediaMetadata ''A'' ''X'' [])) page_plain trap_after_A = (trap_after_A, [])"
proof -
  have v: "video page_plain = Some 0" by (simp add: page_plain_def)
  have d: "JStr (md_title (MediaMetadata ''B'' ''Y'' [])) \<noteq> currentTitle trap_after_A"
    by (simp add: trap_after_A_def)
  from metadata_assignment [of "Some (MediaMetadata ''B'' ''Y'' [])" page_plain trap_after_A
      "MediaMetadata ''B'' ''Y'' []" 0
      "\<lparr> title = JStr ''B'', artist = JStr ''Y'', album = [], isPaused = True \<rparr>" None] v d
  obtain st' where
    m: "metadata_set (Some (MediaMetadata ''B'' ''Y'' [])) page_plain trap_after_A =
      Inr (st', [RealPause 0,
           Dispatch EVENT_TRIGGER
             (Detail (Some \<lparr> title = JStr ''B'', artist = JStr ''Y'', album = [], isPaused = True \<rparr>) None)
             ''SONG_CHANGED''])"
    and i: "metadata_set_inj (Some (MediaMetadata ''B'' ''Y'' [])) page_plain trap_after_A =
      (trap_after_A\<lparr> metadata_cell := Some (MediaMetadata ''B'' ''Y'' []),
          currentTitle := JStr ''B'', isLocked := True \<rparr>,
       [RealPause 0, Dispatch EVENT_TRIGGER (Detail None None) []])"
    by (auto simp: page_plain_status)
  from m have s: "st' = \<lparr> isLocked = True, currentTitle = JStr ''B'', lastUpcomingTitle = JStr [],
            metadata_cell = Some (MediaMetadata ''B'' ''Y'' []) \<rparr>"
    by (simp add: trap_after_A_def metadata_set_def broadcast_def page_plain_status titleOrEmpty_def)
  from metadata_assignment [of "Some (MediaMetadata ''A'' ''X'' [])" page_plain trap_after_A]
  have e: "metadata_set (Some (MediaMetadata ''A'' ''X'' [])) page_plain trap_after_A = Inr (trap_after_A, [])"
    "metadata_set_inj (Some (MediaMetadata ''A'' ''X'' [])) page_plain trap_after_A = (trap_after_A, [])"
    by (auto simp: trap_after_A_def)
  from v m s i e show ?thesis by (simp add: trap_after_A_def)
qed

section \<open>Waiting for the completion signal\<close>

lemma safety_timer_inert:
  "map_of (timers st) tid = Some (delay, SafetyResumeTask) \<Longrightarrow>
   onTimer tid now st = (clearTimeout tid st, [])"
  by (simp add: onTimer_def)

lemma handleSongChange_announcing:
  assumes "SendMessage (SONG_ABOUT_TO_END pl) \<in> set (snd (handleSongChange d st))"
  shows "announcing (fst (handleSongChange d st)) \<and>
     DispatchEvent EVENT_RESUME \<notin> set (snd (handleSongChange d st))"
  using assms
  by (auto simp: handleSongChange_def triggerAnnounce_def setTimeout_def announcing_def Let_def
      split: if_splits option.splits)

lemma announce_step_announcing:
  assumes "SendMessage (SONG_ABOUT_TO_END pl) \<in> set (snd (step st e))"
  shows "announcing (fst (step st e)) \<and> DispatchEvent EVENT_RESUME \<notin> set (snd (step st e))"
proof (cases e)
  case (OnTimer tid now)
  with assms prefetch_sends_no_announce [of pl tid now st] show ?thesis by simp
next
  case (OnUpdate d)
  with assms handleSongChange_announcing [of pl d st] show ?thesis
    by (auto simp: onUpdate_def split: if_splits)
next
  case (OnTrigger d)
  with assms handleSongChange_announcing [of pl d st] show ?thesis by simp
next
  case (OnMessage m vp)
  with assms show ?thesis by (auto simp: onMessage_def split: inbound.splits if_splits)
qed (use assms in \<open>auto simp: init_def onReturnData_def Let_def split: if_splits\<close>)

lemma waiting_handleSongChange:
  assumes "announcing st" "detail_currentSong d \<noteq> None"
  shows "announcing (fst (handleSongChange d st)) \<and>
     DispatchEvent EVENT_RESUME \<notin> set (snd (handleSongChange d st))"
  using assms
  by (auto simp: handleSongChange_def triggerAnnounce_def setTimeout_def announcing_def Let_def
      split: if_splits option.splits)

lemma waiting_step:
  assumes "announcing st" "keeps_waiting e"
  shows "announcing (fst (step st e)) \<and> DispatchEvent EVENT_RESUME \<notin> set (snd (step st e))"
proof (cases e)
  case (OnTrigger d)
  with assms waiting_handleSongChange [of st d] show ?thesis by simp
next
  case (OnUpdate d)
  with assms waiting_handleSongChange [of st d] show ?thesis
    by (auto simp: onUpdate_def announcing_def)
next
  case (OnMessage m vp)
  with assms show ?thesis by (cases m) (auto simp: onMessage_def)
next
  case (OnTimer tid now)
  with assms show ?thesis
    by (auto simp: onTimer_def prefetchCallback_def performPrefetch_def announcing_def Let_def
        split: option.splits timer_task.splits)
next
  case (OnInit dbg en)
  with assms show ?thesis by (auto simp: init_def announcing_def split: option.splits)
next
  case (OnStorageChanged dbg en)
  with assms show ?thesis by (auto simp: onStorageChanged_def announcing_def split: option.splits)
next
  case (OnReturnData d)
  with assms show ?thesis by (auto simp: onReturnData_def announcing_def Let_def)
qed

lemma waiting_run:
  "announcing st \<Longrightarrow> \<forall>e \<in> set es. keeps_waiting e \<Longrightarrow>
   announcing (fst (run st es)) \<and> DispatchEvent EVENT_RESUME \<notin> set (snd (run st es))"
proof (induction es arbitrary: st)
  case Nil
  then show ?case by simp
next
  case (Cons e es)
  from Cons.prems waiting_step [of st e]
  have 1: "announcing (fst (step st e))" and 2: "DispatchEvent EVENT_RESUME \<notin> set (snd (step st e))"
    by simp_all
  from Cons.IH [OF 1] Cons.prems 2 show ?case by (simp add: split_def Let_def)
qed

lemma handleSongChange_resume:
  "DispatchEvent EVENT_RESUME \<in> set (snd (handleSongChange d st)) \<longleftrightarrow>
     \<not> isEnabled st \<or> currentSong st = None \<or> detail_currentSong d = None"
  by (auto simp: handleSongChange_def triggerAnnounce_def setTimeout_def Let_def
      split: option.splits)

lemma step_resume:
  "\<not> is_completion e \<Longrightarrow>
   DispatchEvent EVENT_RESUME \<in> set (snd (step st e)) \<longleftrightarrow> resumes_at_once st e"
proof (cases e)
  case (OnMessage m vp)
  assume "\<not> is_completion e"
  with OnMessage show ?thesis by (cases m) (simp_all add: onMessage_def)
next
  case (OnTimer tid now)
  then show ?thesis
    by (auto simp: onTimer_def prefetchCallback_def performPrefetch_def Let_def
        split: option.splits timer_task.splits if_splits)
next
  case (OnUpdate d)
  then show ?thesis by (simp add: onUpdate_def handleSongChange_resume)
qed (simp_all add: init_def onReturnData_def Let_def handleSongChange_resume)

lemma run_resume:
  "\<forall>e \<in> set es. \<not> is_completion e \<Longrightarrow>
   (DispatchEvent EVENT_RESUME \<in> set (snd (run st es))) = resumes_in_run st es"
proof (induction es arbitrary: st)
  case Nil
  then show ?case by simp
next
  case (Cons e es)
  from Cons.prems have "\<not> is_completion e" by simp
  from step_resume [OF this, of st] Cons.IH [of "fst (step st e)"] Cons.prems
  show ?case by (simp add: split_def Let_def)
qed

text \<open>
  C8, as amended. The 5000 ms timer of the announce flow does nothing when it fires. A
  step that is not the completion signal publishes Resume exactly when it is a Trigger,
  or an Update with another current title, handled while the feature is disabled, or
  with no track stored, or with no current track in the event; a run without the
  completion signal publishes Resume exactly when one of its steps does. So once a step
  has sent an announce request, no run of events that keep the flow waiting (no completion
  signal, the feature not switched off, every event with its current track) publishes
  Resume, and a handler stays registered. In the trap, of either source, whatever
  arrives short of a Resume event leaves the lock on and starts no real playback. On a
  completion signal the listener registered at load publishes Resume exactly when the
  video element is found paused, before the registered handlers publish theirs.
\<close>

theorem stuck_lock:
  "(map_of (timers st) tid = Some (delay, SafetyResumeTask) \<longrightarrow>
      step st (OnTimer tid now) = (clearTimeout tid st, [])) \<and>
   (\<not> is_completion e \<longrightarrow>
      (DispatchEvent EVENT_RESUME \<in> set (snd (step st e))) = resumes_at_once st e) \<and>
   ((\<forall>e' \<in> set es. \<not> is_completion e') \<longrightarrow>
      (DispatchEvent EVENT_RESUME \<in> set (snd (run st es))) = resumes_in_run st es) \<and>
   (SendMessage (SONG_ABOUT_TO_END pl) \<in> set (snd (step st e)) \<and>
    (\<forall>e' \<in> set es. keeps_waiting e') \<longrightarrow>
      DispatchEvent EVENT_RESUME \<notin> set (snd (step st e)) \<and>
      DispatchEvent EVENT_RESUME \<notin> set (snd (run (fst (step st e)) es)) \<and>
      announcing (fst (run (fst (step st e)) es))) \<and>
   (isLocked ts \<and> (\<forall>te \<in> set tes. \<not> is_resume te) \<longrightarrow>
      (\<exists>ts' effs. trap_run ts tes = Inr (ts', effs) \<and> isLocked ts' \<and>
         (\<forall>x \<in> set effs. \<not> is_real_play x)) \<and>
      isLocked (fst (trap_run_inj ts tes)) \<and>
      (\<forall>x \<in> set (snd (trap_run_inj ts tes)). \<not> is_real_play x)) \<and>
   snd (step st (OnMessage TTS_ENDED vp)) =
     (if vp = Some True then [DispatchEvent EVENT_RESUME] else [])
       @ replicate (resumeHandlers st) (DispatchEvent EVENT_RESUME)"
proof (intro conjI impI)
  assume "map_of (timers st) tid = Some (delay, SafetyResumeTask)"
  then show "step st (OnTimer tid now) = (clearTimeout tid st, [])"
    by (simp add: safety_timer_inert)
next
  assume "\<not> is_completion e"
  then show "(DispatchEvent EVENT_RESUME \<in> set (snd (step st e))) = resumes_at_once st e"
    by (rule step_resume)
next
  assume "\<forall>e' \<in> set es. \<not> is_completion e'"
  then show "(DispatchEvent EVENT_RESUME \<in> set (snd (run st es))) = resumes_in_run st es"
    by (rule run_resume)
next
  assume a: "SendMessage (SONG_ABOUT_TO_END pl) \<in> set (snd (step st e)) \<and>
    (\<forall>e' \<in> set es. keeps_waiting e')"
  with announce_step_announcing [of pl st e]
  have an: "announcing (fst (step st e))"
    and "DispatchEvent EVENT_RESUME \<notin> set (snd (step st e))" by simp_all
  then show "DispatchEvent EVENT_RESUME \<notin> set (snd (step st e))" by simp
  from waiting_run [OF an] a
  show "DispatchEvent EVENT_RESUME \<notin> set (snd (run (fst (step st e)) es))"
    and "announcing (fst (run (fst (step st e)) es))" by simp_all
next
  assume l: "isLocked ts \<and> (\<forall>te \<in> set tes. \<not> is_resume te)"
  with trap_run_locked [of ts tes]
  show "\<exists>ts' effs. trap_run ts tes = Inr (ts', effs) \<and> isLocked ts' \<and>
         (\<forall>x \<in> set effs. \<not> is_real_play x)" by simp
  from l trap_run_inj_locked [of ts tes]
  show "isLocked (fst (trap_run_inj ts tes))"
    and "\<forall>x \<in> set (snd (trap_run_inj ts tes)). \<not> is_real_play x" by simp_all
next
  show "snd (step st (OnMessage TTS_ENDED vp)) =
     (if vp = Some True then [DispatchEvent EVENT_RESUME] else [])
       @ replicate (resumeHandlers st) (DispatchEvent EVENT_RESUME)"
    by (simp add: onMessage_def)
qed

theorem stuck_lock_witness:
  "map_of (timers after_AB_trigger) 2 = Some (5000, SafetyResumeTask) \<and>
   step after_AB_trigger (OnTimer 2 ''10:00'') = (clearTimeout 2 after_AB_trigger, []) \<and>
   SendMessage (SONG_ABOUT_TO_END \<lparr> currentSongTitle = Some ''A'', currentSongArtist = ''Unknown'',
       upcomingSongTitle = Some ''B'', upcomingSongArtist = ''Y'' \<rparr>)
     \<in> set (snd (step after_AB (OnTrigger (Detail (Some (song ''B'' ''Y'')) (Some (upcoming ''C'' ''Z'')))))) \<and>
   DispatchEvent EVENT_RESUME \<notin> set (snd (run
       (fst (step after_AB (OnTrigger (Detail (Some (song ''B'' ''Y'')) (Some (upcoming ''C'' ''Z''))))))
       [OnTimer 2 ''10:00'', OnTimer 1 ''10:00'', OnMessage (OTHER_MESSAGE ''PING'') (Some True),
        OnUpdate (Detail (Some (song ''B'' ''Y'')) (Some (upcoming ''D'' ''W'')))])) \<and>
   trap_run (trap_after_A\<lparr> isLocked := True \<rparr>) [PlayCall 0, PlayCall 1]
     = Inr (trap_after_A\<lparr> isLocked := True \<rparr>, []) \<and>
   snd (step after_AB_trigger (OnMessage TTS_ENDED (Some True)))
     = [DispatchEvent EVENT_RESUME, DispatchEvent EVENT_RESUME]"
proof -
  have m: "map_of (timers after_AB_trigger) 2 = Some (5000, SafetyResumeTask)"
    by (simp add: after_AB_trigger_eq)
  have a: "SendMessage (SONG_ABOUT_TO_END \<lparr> currentSongTitle = Some ''A'', currentSongArtist = ''Unknown'',
       upcomingSongTitle = Some ''B'', upcomingSongArtist = ''Y'' \<rparr>)
     \<in> set (snd (step after_AB (OnTrigger (Detail (Some (song ''B'' ''Y'')) (Some (upcoming ''C'' ''Z''))))))"
    by (simp add: after_AB_eq song_def handleSongChange_def triggerAnnounce_def setTimeout_def
        pairKey_def js_split_def js_index_def)
  have k: "\<forall>e' \<in> set [OnTimer 2 ''10:00'', OnTimer 1 ''10:00'', OnMessage (OTHER_MESSAGE ''PING'') (Some True),
        OnUpdate (Detail (Some (song ''B'' ''Y'')) (Some (upcoming ''D'' ''W'')))]. keeps_waiting e'"
    by simp
  have l: "isLocked (trap_after_A\<lparr> isLocked := True \<rparr>)" by simp
  have t: "trap_run (trap_after_A\<lparr> isLocked := True \<rparr>) [PlayCall 0, PlayCall 1]
     = Inr (trap_after_A\<lparr> isLocked := True \<rparr>, [])"
    by (simp add: play_def)
  from stuck_lock [where st = after_AB_trigger and tid = 2 and delay = 5000 and now = "''10:00''"
      and vp = "Some True" and ts = "trap_after_A\<lparr> isLocked := True \<rparr>"
      and tes = "[PlayCall 0, PlayCall 1]"] m
  have 1: "step after_AB_trigger (OnTimer 2 ''10:00'') = (clearTimeout 2 after_AB_trigger, [])"
    and 2: "snd (step after_AB_trigger (OnMessage TTS_ENDED (Some True)))
     = [DispatchEvent EVENT_RESUME, DispatchEvent EVENT_RESUME]"
    by (simp_all add: after_AB_trigger_eq)
  from stuck_lock [where st = after_AB
      and e = "OnTrigger (Detail (Some (song ''B'' ''Y'')) (Some (upcoming ''C'' ''Z'')))"
      and es = "[OnTimer 2 ''10:00'', OnTimer 1 ''10:00'', OnMessage (OTHER_MESSAGE ''PING'') (Some True),
        OnUpdate (Detail (Some (song ''B'' ''Y'')) (Some (upcoming ''D'' ''W'')))]"
      and pl = "\<lparr> currentSongTitle = Some ''A'', currentSongArtist = ''Unknown'',
       upcomingSongTitle = Some ''B'', upcomingSongArtist = ''Y'' \<rparr>"] a k
  have 3: "DispatchEvent EVENT_RESUME \<notin> set (snd (run
       (fst (step after_AB (OnTrigger (Detail (Some (song ''B'' ''Y'')) (Some (upcoming ''C'' ''Z''))))))
       [OnTimer 2 ''10:00'', OnTimer 1 ''10:00'', OnMessage (OTHER_MESSAGE ''PING'') (Some True),
        OnUpdate (Detail (Some (song ''B'' ''Y'')) (Some (upcoming ''D'' ''W'')))]))"
    by blast
  from m 1 a 3 t 2 show ?thesis by blast
qed

text \<open>
  The claim as stated fails: with the announce request for B sent and no completion
  signal, the feature is switched off and the next Trigger publishes Resume; so does a
  Trigger that carries no current track.
\<close>

theorem stuck_lock_counterexample:
  "snd (run after_AB
      [OnTrigger (Detail (Some (song ''B'' ''Y'')) (Some (upcoming ''C'' ''Z''))),
       OnStorageChanged None (Some False),
       OnTrigger (Detail (Some (song ''C'' ''Z'')) (Some (upcoming ''D'' ''W'')))])
     = [SendMessage (SONG_ABOUT_TO_END \<lparr> currentSongTitle = Some ''A'',
          currentSongArtist = ''Unknown'', upcomingSongTitle = Some ''B'',
          upcomingSongArtist = ''Y'' \<rparr>),
        DispatchEvent EVENT_RESUME] \<and>
   snd (run after_AB
      [OnTrigger (Detail (Some (song ''B'' ''Y'')) (Some (upcoming ''C'' ''Z''))),
       OnTrigger (Detail None None)])
     = [SendMessage (SONG_ABOUT_TO_END \<lparr> currentSongTitle = Some ''A'',
          currentSongArtist = ''Unknown'', upcomingSongTitle = Some ''B'',
          upcomingSongArtist = ''Y'' \<rparr>),
        DispatchEvent EVENT_RESUME]"
  by (simp add: after_AB_eq onStorageChanged_def handleSongChange_def triggerAnnounce_def
      setTimeout_def schedulePrefetch_def clearTimeout_def song_def upcoming_def pairKey_def
      js_split_def js_index_def)

text \<open>The trap state of the examples is reached from the initial one.\<close>

lemma trap_after_A_reachable:
  "trap_run (trap_initial None)
     [SetMetadata (Some (MediaMetadata ''A'' ''X'' [])) page_plain, ResumeEvent page_plain]
   = Inr (trap_after_A,
       [RealPause 0,
        Dispatch EVENT_TRIGGER
          (Detail (Some \<lparr> title = JStr ''A'', artist = JStr ''X'', album = [], isPaused = True \<rparr>) None)
          ''SONG_CHANGED'',
        RealPlay 0])"
  by (simp add: trap_initial_def trap_after_A_def metadata_set_def broadcast_def page_plain_status
      titleOrEmpty_def onResume_def) (simp add: page_plain_def)

end
